theory Spec2Isabelle
  imports
    Complex_Main
    "HOL-Library.Word"
    "HOL-Library.Multiset"
    "HOL-Library.Char_ord"
    "HOL-Library.List_Lexorder"
    "HOL-Library.AList"
begin

unbundle bit_operations_syntax

section \<open>Python strings\<close>

text \<open>
  A Python \<open>str\<close> is modelled as a \<open>string\<close>: the list of its code points, restricted to
  the code points below 256 that \<open>char\<close> can hold.  \<open>length\<close> therefore counts code
  points, as \<open>len\<close> does.
\<close>

text \<open>\<open>str.isspace\<close> on one code point below 256: TAB, LF, VT, FF, CR, the four
  separators FS, GS, RS, US, the space, NEL and the no-break space.\<close>

definition isspace :: "char \<Rightarrow> bool" where
  "isspace c = ((of_char c :: nat) \<in> {9, 10, 11, 12, 13, 28, 29, 30, 31, 32, 133, 160})"

text \<open>\<open>str.strip()\<close> with no argument.\<close>

definition strip :: "string \<Rightarrow> string" where
  "strip s = rev (dropWhile isspace (rev (dropWhile isspace s)))"

text \<open>\<open>str.split()\<close> with no argument: a scan that closes the current word at every
  whitespace character and never emits an empty word.  The first argument is the word
  collected so far.\<close>

fun split_scan :: "string \<Rightarrow> string \<Rightarrow> string list" where
  "split_scan w [] = (if w = [] then [] else [w])"
| "split_scan w (c # cs) =
     (if isspace c then (if w = [] then split_scan [] cs else w # split_scan [] cs)
      else split_scan (w @ [c]) cs)"

definition split_ws :: "string \<Rightarrow> string list" where
  "split_ws s = split_scan [] s"

text \<open>\<open>sep.join(parts)\<close>.\<close>

fun join :: "string \<Rightarrow> string list \<Rightarrow> string" where
  "join sep [] = []"
| "join sep [x] = x"
| "join sep (x # y # ys) = x @ sep @ join sep (y # ys)"

text \<open>\<open>str.encode('utf-8')\<close> for code points below 256: one byte below 128, two bytes
  from 128 on.\<close>

type_synonym byte = "8 word"

definition utf8_char :: "char \<Rightarrow> byte list" where
  "utf8_char c =
     (let n = (of_char c :: nat) in
      if n < 128 then [of_nat n]
      else [of_nat (192 + n div 64), of_nat (128 + n mod 64)])"

definition encode_utf8 :: "string \<Rightarrow> byte list" where
  "encode_utf8 s = concat (map utf8_char s)"

section \<open>SHA-256 (\<open>hashlib.sha256\<close>)\<close>

text \<open>The hash of FIPS 180-4 on a list of bytes, with \<open>hexdigest\<close> as its lower-case
  hexadecimal rendering.\<close>

definition K256 :: "32 word list" where
  "K256 =
     [0x428a2f98, 0x71374491, 0xb5c0fbcf, 0xe9b5dba5, 0x3956c25b, 0x59f111f1, 0x923f82a4, 0xab1c5ed5] @
     [0xd807aa98, 0x12835b01, 0x243185be, 0x550c7dc3, 0x72be5d74, 0x80deb1fe, 0x9bdc06a7, 0xc19bf174] @
     [0xe49b69c1, 0xefbe4786, 0x0fc19dc6, 0x240ca1cc, 0x2de92c6f, 0x4a7484aa, 0x5cb0a9dc, 0x76f988da] @
     [0x983e5152, 0xa831c66d, 0xb00327c8, 0xbf597fc7, 0xc6e00bf3, 0xd5a79147, 0x06ca6351, 0x14292967] @
     [0x27b70a85, 0x2e1b2138, 0x4d2c6dfc, 0x53380d13, 0x650a7354, 0x766a0abb, 0x81c2c92e, 0x92722c85] @
     [0xa2bfe8a1, 0xa81a664b, 0xc24b8b70, 0xc76c51a3, 0xd192e819, 0xd6990624, 0xf40e3585, 0x106aa070] @
     [0x19a4c116, 0x1e376c08, 0x2748774c, 0x34b0bcb5, 0x391c0cb3, 0x4ed8aa4a, 0x5b9cca4f, 0x682e6ff3] @
     [0x748f82ee, 0x78a5636f, 0x84c87814, 0x8cc70208, 0x90befffa, 0xa4506ceb, 0xbef9a3f7, 0xc67178f2]"

definition H256 :: "32 word list" where
  "H256 =
    [0x6a09e667, 0xbb67ae85, 0x3c6ef372, 0xa54ff53a, 0x510e527f, 0x9b05688c, 0x1f83d9ab, 0x5be0cd19]"

definition rotr :: "nat \<Rightarrow> 32 word \<Rightarrow> 32 word" where
  "rotr n x = (drop_bit n x) OR (push_bit (32 - n) x)"

definition Ch :: "32 word \<Rightarrow> 32 word \<Rightarrow> 32 word \<Rightarrow> 32 word" where
  "Ch x y z = (x AND y) XOR (NOT x AND z)"

definition Maj :: "32 word \<Rightarrow> 32 word \<Rightarrow> 32 word \<Rightarrow> 32 word" where
  "Maj x y z = (x AND y) XOR (x AND z) XOR (y AND z)"

definition Sigma0 :: "32 word \<Rightarrow> 32 word" where
  "Sigma0 x = rotr 2 x XOR rotr 13 x XOR rotr 22 x"

definition Sigma1 :: "32 word \<Rightarrow> 32 word" where
  "Sigma1 x = rotr 6 x XOR rotr 11 x XOR rotr 25 x"

definition sigma0 :: "32 word \<Rightarrow> 32 word" where
  "sigma0 x = rotr 7 x XOR rotr 18 x XOR drop_bit 3 x"

definition sigma1 :: "32 word \<Rightarrow> 32 word" where
  "sigma1 x = rotr 17 x XOR rotr 19 x XOR drop_bit 10 x"

text \<open>Big-endian packing of bytes into 32-bit words and back.\<close>

definition be32 :: "byte \<Rightarrow> byte \<Rightarrow> byte \<Rightarrow> byte \<Rightarrow> 32 word" where
  "be32 a b c d =
     push_bit 24 (ucast a) OR push_bit 16 (ucast b) OR push_bit 8 (ucast c) OR ucast d"

fun words_of_bytes :: "byte list \<Rightarrow> 32 word list" where
  "words_of_bytes (a # b # c # d # rest) = be32 a b c d # words_of_bytes rest"
| "words_of_bytes _ = []"

definition be_bytes :: "nat \<Rightarrow> nat \<Rightarrow> byte list" where
  "be_bytes k n = map (\<lambda>i. of_nat (n div 256 ^ (k - 1 - i))) [0..<k]"

text \<open>Padding: the bit 1, then zero bytes up to 56 modulo 64, then the bit length of the
  message in 8 bytes.\<close>

definition sha256_pad :: "byte list \<Rightarrow> byte list" where
  "sha256_pad m =
     m @ [0x80] @ replicate ((119 - length m mod 64) mod 64) 0 @ be_bytes 8 (8 * length m)"

text \<open>The message schedule: the 16 words of the block, extended to 64.\<close>

fun schedule :: "nat \<Rightarrow> 32 word list \<Rightarrow> 32 word list" where
  "schedule 0 w = w"
| "schedule (Suc k) w =
     (let t = length w in
      schedule k (w @ [sigma1 (w ! (t - 2)) + w ! (t - 7) + sigma0 (w ! (t - 15)) + w ! (t - 16)]))"

text \<open>One round on the eight working variables, and the 64 rounds of a block.\<close>

fun sha256_round :: "32 word list \<Rightarrow> 32 word \<times> 32 word \<Rightarrow> 32 word list" where
  "sha256_round [a, b, c, d, e, f, g, h] (k, w) =
     (let t1 = h + Sigma1 e + Ch e f g + k + w;
          t2 = Sigma0 a + Maj a b c
      in [t1 + t2, a, b, c, d + t1, e, f, g])"
| "sha256_round v _ = v"

definition sha256_block :: "32 word list \<Rightarrow> 32 word list \<Rightarrow> 32 word list" where
  "sha256_block hs blk =
     map2 (+) hs (foldl sha256_round hs (zip K256 (schedule 48 blk)))"

fun sha256_blocks :: "nat \<Rightarrow> 32 word list \<Rightarrow> 32 word list \<Rightarrow> 32 word list" where
  "sha256_blocks 0 hs ws = hs"
| "sha256_blocks (Suc n) hs ws = sha256_blocks n (sha256_block hs (take 16 ws)) (drop 16 ws)"

definition sha256 :: "byte list \<Rightarrow> 32 word list" where
  "sha256 m =
     (let ws = words_of_bytes (sha256_pad m) in sha256_blocks (length ws div 16) H256 ws)"

definition hex_digit :: "nat \<Rightarrow> char" where
  "hex_digit n = (''0123456789abcdef'') ! (n mod 16)"

definition hex_word :: "32 word \<Rightarrow> string" where
  "hex_word w = map (\<lambda>i. hex_digit (unat (drop_bit (4 * (7 - i)) w))) [0..<8]"

definition sha256_hexdigest :: "byte list \<Rightarrow> string" where
  "sha256_hexdigest m = concat (map hex_word (sha256 m))"

section \<open>Stable identifiers (\<open>docmine/models/stable_id.py\<close>)\<close>

definition normalize_text :: "string \<Rightarrow> string" where
  "normalize_text text = join '' '' (split_ws (strip text))"

definition generate_segment_id :: "string \<Rightarrow> string \<Rightarrow> string \<Rightarrow> string \<Rightarrow> string" where
  "generate_segment_id namespace source_uri provenance_key text =
     (let normalized = normalize_text text;
          components =
            namespace @ ''|'' @ source_uri @ ''|'' @ provenance_key @ ''|'' @ normalized
      in sha256_hexdigest (encode_utf8 components))"

definition generate_text_hash :: "string \<Rightarrow> string" where
  "generate_text_hash text =
     (let normalized = normalize_text text in sha256_hexdigest (encode_utf8 normalized))"

definition generate_content_hash :: "byte list \<Rightarrow> string" where
  "generate_content_hash content = sha256_hexdigest content"

subsection \<open>The specification's wording of the same functions\<close>

text \<open>``Collapse all internal whitespace runs to single spaces and trim'': after trimming,
  every maximal run of whitespace characters becomes one space.\<close>

function collapse_ws :: "string \<Rightarrow> string" where
  "collapse_ws [] = []"
| "collapse_ws (c # cs) =
     (if isspace c then CHR '' '' # collapse_ws (dropWhile isspace cs) else c # collapse_ws cs)"
  by pat_completeness auto
termination
  by (relation "measure length") (auto simp: le_imp_less_Suc length_dropWhile_le)

definition normalize_spec :: "string \<Rightarrow> string" where
  "normalize_spec text = collapse_ws (strip text)"

text \<open>``Cryptographic hash (256-bit, hex-encoded) of the pipe-joined tuple
  namespace|sourceUri|provenanceKey|normalize(text)''.\<close>

definition segment_id_spec :: "string \<Rightarrow> string \<Rightarrow> string \<Rightarrow> string \<Rightarrow> string" where
  "segment_id_spec namespace source_uri provenance_key text =
     sha256_hexdigest
       (encode_utf8 (join ''|'' [namespace, source_uri, provenance_key, normalize_spec text]))"

text \<open>A word as \<open>str.split()\<close> returns it: not empty and free of whitespace.\<close>

definition word_ok :: "string \<Rightarrow> bool" where
  "word_ok w = (w \<noteq> [] \<and> list_all (\<lambda>c. \<not> isspace c) w)"

section \<open>Python values used by the models\<close>

text \<open>A \<open>datetime\<close> is a point on a line of integer ticks.  A \<open>float\<close> is either a finite
  number (idealised as a real) or one of the three special values; comparisons with
  \<open>NaN\<close> are false, as in Python.\<close>

type_synonym timestamp = int

datatype pyfloat = Finite real | PosInf | NegInf | NaN

fun py_le :: "pyfloat \<Rightarrow> pyfloat \<Rightarrow> bool" where
  "py_le NaN _ = False"
| "py_le _ NaN = False"
| "py_le (Finite a) (Finite b) = (a \<le> b)"
| "py_le NegInf _ = True"
| "py_le _ PosInf = True"
| "py_le _ _ = False"

fun py_lt :: "pyfloat \<Rightarrow> pyfloat \<Rightarrow> bool" where
  "py_lt NaN _ = False"
| "py_lt _ NaN = False"
| "py_lt (Finite a) (Finite b) = (a < b)"
| "py_lt PosInf _ = False"
| "py_lt _ NegInf = False"
| "py_lt _ _ = True"

text \<open>The values of a JSON-serialisable dictionary, and the dictionary itself as an
  association list in insertion order.\<close>

datatype pyval = PInt int | PStr string

type_synonym pydict = "(string \<times> pyval) list"

text \<open>\<open>d.update(other)\<close>.\<close>

definition dict_update :: "pydict \<Rightarrow> pydict \<Rightarrow> pydict" where
  "dict_update d other = fold (\<lambda>(k, v). AList.update k v) other d"

datatype error =
    ValueError
  | FileNotFoundError
  | UnicodeDecodeError
  | ConstraintException

text \<open>\<open>str(n)\<close> for an integer.\<close>

function str_nat :: "nat \<Rightarrow> string" where
  "str_nat n =
     (if n < 10 then [(''0123456789'') ! n]
      else str_nat (n div 10) @ [(''0123456789'') ! (n mod 10)])"
  by pat_completeness auto
termination
  by (relation "measure id") auto

definition str_int :: "int \<Rightarrow> string" where
  "str_int i = (if i < 0 then ''-'' @ str_nat (nat (- i)) else str_nat (nat i))"

section \<open>Data model (\<open>docmine/models\<close>, \<open>docmine/extraction/base_extractor.py\<close>)\<close>

record InformationResource =
  ir_id :: string
  ir_namespace :: string
  ir_source_type :: string
  ir_source_uri :: string
  ir_content_hash :: string
  ir_metadata :: pydict
  ir_created_at :: timestamp
  ir_updated_at :: timestamp

record ResourceSegment =
  seg_id :: string
  seg_ir_id :: string
  seg_segment_index :: int
  seg_text :: string
  seg_provenance :: pydict
  seg_text_hash :: string
  seg_created_at :: timestamp

record Entity =
  ent_id :: string
  ent_namespace :: string
  ent_type :: string
  ent_name :: string
  ent_aliases :: "string list"
  ent_metadata :: pydict
  ent_created_at :: timestamp
  ent_updated_at :: timestamp

record EntityLink =
  link_segment_id :: string
  link_entity_id :: string
  link_type :: string
  link_confidence :: pyfloat
  link_created_at :: timestamp

record ExtractedEntity =
  ext_type :: string
  ext_name :: string
  ext_aliases :: "string list"
  ext_confidence :: pyfloat
  ext_metadata :: pydict

text \<open>The test \<open>0.0 <= confidence <= 1.0\<close> of both \<open>__post_init__\<close> methods.\<close>

definition confidence_ok :: "pyfloat \<Rightarrow> bool" where
  "confidence_ok c = (py_le (Finite 0) c \<and> py_le c (Finite 1))"

text \<open>\<open>EntityLink(segment_id, entity_id, link_type, confidence, created_at)\<close>: the
  constructor followed by \<open>__post_init__\<close>.  \<open>now\<close> is what \<open>datetime.utcnow()\<close>
  returns when \<open>created_at\<close> is \<open>None\<close>.\<close>

definition EntityLink_init ::
  "timestamp \<Rightarrow> string \<Rightarrow> string \<Rightarrow> string \<Rightarrow> pyfloat \<Rightarrow> timestamp option \<Rightarrow> error + EntityLink"
where
  "EntityLink_init now segment_id entity_id ltype confidence created_at =
     (let created = (case created_at of None \<Rightarrow> now | Some t \<Rightarrow> t) in
      if \<not> confidence_ok confidence then Inl ValueError
      else Inr \<lparr>link_segment_id = segment_id, link_entity_id = entity_id, link_type = ltype,
                link_confidence = confidence, link_created_at = created\<rparr>)"

text \<open>\<open>ExtractedEntity(type, name, aliases, confidence, metadata)\<close>.\<close>

definition ExtractedEntity_init ::
  "string \<Rightarrow> string \<Rightarrow> string list \<Rightarrow> pyfloat \<Rightarrow> pydict \<Rightarrow> error + ExtractedEntity"
where
  "ExtractedEntity_init etype name aliases confidence metadata =
     (if \<not> confidence_ok confidence then Inl ValueError
      else Inr \<lparr>ext_type = etype, ext_name = name, ext_aliases = aliases,
                ext_confidence = confidence, ext_metadata = metadata\<rparr>)"

text \<open>\<open>ResourceSegment(id, ir_id, segment_index, text, provenance, text_hash)\<close>, whose
  \<open>__post_init__\<close> reads the clock for \<open>created_at\<close>.\<close>

definition ResourceSegment_init ::
  "timestamp \<Rightarrow> string \<Rightarrow> string \<Rightarrow> int \<Rightarrow> string \<Rightarrow> pydict \<Rightarrow> string \<Rightarrow> ResourceSegment"
where
  "ResourceSegment_init now sid ir idx text provenance text_hash =
     \<lparr>seg_id = sid, seg_ir_id = ir, seg_segment_index = idx, seg_text = text,
      seg_provenance = provenance, seg_text_hash = text_hash, seg_created_at = now\<rparr>"

section \<open>Deterministic segmenter (\<open>docmine/ingest/segmenter.py\<close>)\<close>

text \<open>
  Every segmenting function takes \<open>clock\<close>, where \<open>clock k\<close> is what
  \<open>datetime.utcnow()\<close> returns for the \<open>k\<close>-th segment the call constructs, and
  \<open>n\<close>, the \<open>sentences_per_segment\<close> of the segmenter.
\<close>

definition sentence_end :: "char \<Rightarrow> bool" where
  "sentence_end c = (c \<in> set ''.!?'')"

definition is_upper_AZ :: "char \<Rightarrow> bool" where
  "is_upper_AZ c = (65 \<le> (of_char c :: nat) \<and> (of_char c :: nat) \<le> 90)"

text \<open>The pattern \<open>\s+(?=[A-Z])\<close> matches at the head of \<open>cs\<close>: a non-empty run of
  whitespace followed by a capital letter.\<close>

definition boundary :: "string \<Rightarrow> bool" where
  "boundary cs =
     (case cs of
        [] \<Rightarrow> False
      | d # _ \<Rightarrow> isspace d \<and> (case dropWhile isspace cs of [] \<Rightarrow> False | u # _ \<Rightarrow> is_upper_AZ u))"

text \<open>\<open>re.split(r'(?<=[.!?])\s+(?=[A-Z])', text)\<close>; the first argument is the piece
  collected so far.\<close>

function re_split_sentences :: "string \<Rightarrow> string \<Rightarrow> string list" where
  "re_split_sentences cur [] = [cur]"
| "re_split_sentences cur (c # cs) =
     (if sentence_end c \<and> boundary cs
      then (cur @ [c]) # re_split_sentences [] (dropWhile isspace cs)
      else re_split_sentences (cur @ [c]) cs)"
  by pat_completeness auto
termination
  by (relation "measure (\<lambda>(cur, s). length s)") (auto simp: le_imp_less_Suc length_dropWhile_le)

definition split_sentences :: "string \<Rightarrow> string list" where
  "split_sentences text =
     (let sentences = re_split_sentences [] text;
          sentences = map strip (filter (\<lambda>s. strip s \<noteq> []) sentences);
          sentences = filter (\<lambda>s. 20 \<le> length s) sentences
      in sentences)"

text \<open>The pairs \<open>(sent_idx, sentences[sent_idx : sent_idx + n])\<close> for
  \<open>sent_idx in range(0, len(sentences), n)\<close>.  \<open>range\<close> raises \<open>ValueError\<close> for a zero
  step and is empty for a negative one.\<close>

function batches_from :: "nat \<Rightarrow> nat \<Rightarrow> 'a list \<Rightarrow> (nat \<times> 'a list) list" where
  "batches_from n i xs =
     (if n = 0 \<or> xs = [] then [] else (i, take n xs) # batches_from n (i + n) (drop n xs))"
  by pat_completeness auto
termination
  by (relation "measure (\<lambda>(n, i, xs). length xs)") auto

definition range_batches :: "int \<Rightarrow> 'a list \<Rightarrow> error + (nat \<times> 'a list) list" where
  "range_batches n xs =
     (if n = 0 then Inl ValueError
      else if n < 0 then Inr []
      else Inr (batches_from (nat n) 0 xs))"

record Page =
  page_num :: int
  page_text :: string

text \<open>The segment that the body of the inner loop of \<open>segment_pages\<close> builds from
  one batch: its provenance, its key, its identifier and the record.\<close>

definition page_segment ::
  "timestamp \<Rightarrow> string \<Rightarrow> string \<Rightarrow> string \<Rightarrow> int \<Rightarrow> nat \<Rightarrow> string list \<Rightarrow> string \<Rightarrow> int \<Rightarrow>
   ResourceSegment"
where
  "page_segment now ir ns uri pnum sent_idx batch segment_text global_index =
     (let provenance =
            [(''page'', PInt pnum), (''sentence'', PInt (int sent_idx)),
             (''sentence_count'', PInt (int (length batch)))];
          provenance_key = str_int pnum @ '':'' @ str_nat sent_idx;
          segment_id = generate_segment_id ns uri provenance_key segment_text
      in ResourceSegment_init now segment_id ir global_index segment_text provenance
           (generate_text_hash segment_text))"

text \<open>The inner loop of \<open>segment_pages\<close> over the batches of one page; the state is
  \<open>(all_segments, global_index)\<close>.\<close>

fun segment_page_batches ::
  "(nat \<Rightarrow> timestamp) \<Rightarrow> string \<Rightarrow> string \<Rightarrow> string \<Rightarrow> int \<Rightarrow> (nat \<times> string list) list \<Rightarrow>
   ResourceSegment list \<times> int \<Rightarrow> ResourceSegment list \<times> int"
where
  "segment_page_batches clock ir ns uri pnum [] st = st"
| "segment_page_batches clock ir ns uri pnum ((sent_idx, batch) # bs) (all_segments, global_index) =
     (let segment_text = join '' '' batch in
      if strip segment_text = [] then
        segment_page_batches clock ir ns uri pnum bs (all_segments, global_index)
      else
        let segment =
              page_segment (clock (length all_segments)) ir ns uri pnum sent_idx batch
                segment_text global_index
        in segment_page_batches clock ir ns uri pnum bs
             (all_segments @ [segment], global_index + 1))"

fun segment_pages_loop ::
  "(nat \<Rightarrow> timestamp) \<Rightarrow> int \<Rightarrow> string \<Rightarrow> string \<Rightarrow> string \<Rightarrow> Page list \<Rightarrow>
   ResourceSegment list \<times> int \<Rightarrow> error + ResourceSegment list \<times> int"
where
  "segment_pages_loop clock n ir ns uri [] st = Inr st"
| "segment_pages_loop clock n ir ns uri (page # pages) st =
     (let sentences = split_sentences (page_text page) in
      if sentences = [] then segment_pages_loop clock n ir ns uri pages st
      else
        (case range_batches n sentences of
           Inl e \<Rightarrow> Inl e
         | Inr bs \<Rightarrow>
             segment_pages_loop clock n ir ns uri pages
               (segment_page_batches clock ir ns uri (page_num page) bs st)))"

definition segment_pages ::
  "(nat \<Rightarrow> timestamp) \<Rightarrow> int \<Rightarrow> Page list \<Rightarrow> string \<Rightarrow> string \<Rightarrow> string \<Rightarrow>
   error + ResourceSegment list"
where
  "segment_pages clock n pages ir ns uri =
     (case segment_pages_loop clock n ir ns uri pages ([], 0) of
        Inl e \<Rightarrow> Inl e
      | Inr (all_segments, global_index) \<Rightarrow> Inr all_segments)"

text \<open>The segment that the loop body of \<open>_segment_paragraph\<close> builds from one batch.\<close>

definition paragraph_segment ::
  "timestamp \<Rightarrow> string \<Rightarrow> int \<Rightarrow> string \<Rightarrow> string \<Rightarrow> string \<Rightarrow> nat \<Rightarrow> string list \<Rightarrow> string \<Rightarrow> int \<Rightarrow>
   ResourceSegment"
where
  "paragraph_segment now heading para_index ir ns uri sent_idx batch segment_text idx =
     (let provenance =
            [(''heading_path'', PStr heading), (''para'', PInt para_index),
             (''sentence'', PInt (int sent_idx)),
             (''sentence_count'', PInt (int (length batch)))];
          provenance_key = heading @ '':'' @ str_int para_index @ '':'' @ str_nat sent_idx;
          segment_id = generate_segment_id ns uri provenance_key segment_text
      in ResourceSegment_init now segment_id ir idx segment_text provenance
           (generate_text_hash segment_text))"

text \<open>\<open>_segment_paragraph\<close>: the loop over the batches of one paragraph, on its local
  list \<open>segments\<close>.\<close>

fun segment_paragraph_batches ::
  "(nat \<Rightarrow> timestamp) \<Rightarrow> string \<Rightarrow> int \<Rightarrow> string \<Rightarrow> string \<Rightarrow> string \<Rightarrow> int \<Rightarrow>
   (nat \<times> string list) list \<Rightarrow> ResourceSegment list \<Rightarrow> ResourceSegment list"
where
  "segment_paragraph_batches clock heading para_index ir ns uri start_index [] segments = segments"
| "segment_paragraph_batches clock heading para_index ir ns uri start_index
     ((sent_idx, batch) # bs) segments =
     (let segment_text = join '' '' batch in
      if strip segment_text = [] then
        segment_paragraph_batches clock heading para_index ir ns uri start_index bs segments
      else
        let segment =
              paragraph_segment (clock (length segments)) heading para_index ir ns uri sent_idx
                batch segment_text (start_index + int (length segments))
        in segment_paragraph_batches clock heading para_index ir ns uri start_index bs
             (segments @ [segment]))"

definition segment_paragraph ::
  "(nat \<Rightarrow> timestamp) \<Rightarrow> int \<Rightarrow> string list \<Rightarrow> string \<Rightarrow> int \<Rightarrow> string \<Rightarrow> string \<Rightarrow> string \<Rightarrow> int \<Rightarrow>
   error + ResourceSegment list"
where
  "segment_paragraph clock n para_lines heading para_index ir ns uri start_index =
     (let text = join '' '' para_lines;
          sentences = split_sentences text
      in case range_batches n sentences of
           Inl e \<Rightarrow> Inl e
         | Inr bs \<Rightarrow>
             Inr (segment_paragraph_batches clock heading para_index ir ns uri start_index bs []))"

text \<open>\<open>text.split('\n')\<close>, \<open>line.startswith('#')\<close> and \<open>line.lstrip('#')\<close>.\<close>

fun split_char :: "char \<Rightarrow> string \<Rightarrow> string \<Rightarrow> string list" where
  "split_char sep cur [] = [cur]"
| "split_char sep cur (c # cs) =
     (if c = sep then cur # split_char sep [] cs else split_char sep (cur @ [c]) cs)"

definition split_lines :: "string \<Rightarrow> string list" where
  "split_lines text = split_char (CHR 0x0A) [] text"

definition starts_with_hash :: "string \<Rightarrow> bool" where
  "starts_with_hash line = (case line of [] \<Rightarrow> False | c # _ \<Rightarrow> c = CHR ''#'')"

definition lstrip_hash :: "string \<Rightarrow> string" where
  "lstrip_hash line = dropWhile (\<lambda>c. c = CHR ''#'') line"

text \<open>The loop of \<open>segment_markdown\<close> over the lines; the state is
  \<open>(segments, global_index, current_heading, current_para, para_index)\<close>.  The clock of
  a paragraph continues where the segments built so far stopped.\<close>

fun segment_markdown_loop ::
  "(nat \<Rightarrow> timestamp) \<Rightarrow> int \<Rightarrow> string \<Rightarrow> string \<Rightarrow> string \<Rightarrow> string list \<Rightarrow>
   ResourceSegment list \<times> int \<times> string \<times> string list \<times> int \<Rightarrow>
   error + ResourceSegment list \<times> int \<times> string \<times> string list \<times> int"
where
  "segment_markdown_loop clock n ir ns uri [] st = Inr st"
| "segment_markdown_loop clock n ir ns uri (line # lines)
     (segments, global_index, current_heading, current_para, para_index) =
     (if starts_with_hash line then
        (if current_para \<noteq> [] then
           (case segment_paragraph (\<lambda>k. clock (length segments + k)) n current_para
                   current_heading para_index ir ns uri global_index of
              Inl e \<Rightarrow> Inl e
            | Inr new \<Rightarrow>
                let segments = segments @ new;
                    global_index = global_index + int (length segments)
                in segment_markdown_loop clock n ir ns uri lines
                     (segments, global_index, strip (lstrip_hash line), [], para_index + 1))
         else
           segment_markdown_loop clock n ir ns uri lines
             (segments, global_index, strip (lstrip_hash line), current_para, para_index))
      else if strip line \<noteq> [] then
        segment_markdown_loop clock n ir ns uri lines
          (segments, global_index, current_heading, current_para @ [line], para_index)
      else
        segment_markdown_loop clock n ir ns uri lines
          (segments, global_index, current_heading, current_para, para_index))"

definition segment_markdown ::
  "(nat \<Rightarrow> timestamp) \<Rightarrow> int \<Rightarrow> string \<Rightarrow> string \<Rightarrow> string \<Rightarrow> string \<Rightarrow>
   error + ResourceSegment list"
where
  "segment_markdown clock n text ir ns uri =
     (case segment_markdown_loop clock n ir ns uri (split_lines text) ([], 0, ''root'', [], 0) of
        Inl e \<Rightarrow> Inl e
      | Inr (segments, global_index, current_heading, current_para, para_index) \<Rightarrow>
          if current_para \<noteq> [] then
            (case segment_paragraph (\<lambda>k. clock (length segments + k)) n current_para
                    current_heading para_index ir ns uri global_index of
               Inl e \<Rightarrow> Inl e
             | Inr new \<Rightarrow> Inr (segments @ new))
          else Inr segments)"

text \<open>The segment that the loop body of \<open>segment_text\<close> builds from one batch.\<close>

definition text_segment ::
  "timestamp \<Rightarrow> string \<Rightarrow> string \<Rightarrow> string \<Rightarrow> nat \<Rightarrow> string list \<Rightarrow> string \<Rightarrow> int \<Rightarrow> ResourceSegment"
where
  "text_segment now ir ns uri sent_idx batch segment_text idx =
     (let provenance =
            [(''sentence'', PInt (int sent_idx)),
             (''sentence_count'', PInt (int (length batch)))];
          provenance_key = str_nat sent_idx;
          segment_id = generate_segment_id ns uri provenance_key segment_text
      in ResourceSegment_init now segment_id ir idx segment_text provenance
           (generate_text_hash segment_text))"

text \<open>\<open>segment_text\<close>: the loop over the batches of the whole text.\<close>

fun segment_text_batches ::
  "(nat \<Rightarrow> timestamp) \<Rightarrow> string \<Rightarrow> string \<Rightarrow> string \<Rightarrow> (nat \<times> string list) list \<Rightarrow>
   ResourceSegment list \<Rightarrow> ResourceSegment list"
where
  "segment_text_batches clock ir ns uri [] segments = segments"
| "segment_text_batches clock ir ns uri ((sent_idx, batch) # bs) segments =
     (let segment_text = join '' '' batch in
      if strip segment_text = [] then segment_text_batches clock ir ns uri bs segments
      else
        let segment =
              text_segment (clock (length segments)) ir ns uri sent_idx batch segment_text
                (int (length segments))
        in segment_text_batches clock ir ns uri bs (segments @ [segment]))"

definition segment_text ::
  "(nat \<Rightarrow> timestamp) \<Rightarrow> int \<Rightarrow> string \<Rightarrow> string \<Rightarrow> string \<Rightarrow> string \<Rightarrow>
   error + ResourceSegment list"
where
  "segment_text clock n text ir ns uri =
     (let sentences = split_sentences text in
      case range_batches n sentences of
        Inl e \<Rightarrow> Inl e
      | Inr bs \<Rightarrow> Inr (segment_text_batches clock ir ns uri bs []))"

section \<open>Knowledge store (\<open>docmine/storage/knowledge_store.py\<close>)\<close>

text \<open>
  The DuckDB database is modelled by its five tables.  A table is the list of its rows in
  scan order: a \<open>SELECT\<close> without \<open>ORDER BY\<close> returns the matching rows in this order,
  \<open>fetchone\<close> returns the first of them, \<open>INSERT\<close> appends, \<open>UPDATE\<close> rewrites rows in
  place, and \<open>INSERT OR REPLACE\<close> rewrites the row with the same key or appends.  An
  \<open>INSERT\<close> that would break a \<open>PRIMARY KEY\<close> or \<open>UNIQUE\<close> constraint raises
  \<open>ConstraintException\<close>.  JSON columns hold the dictionary or list they serialise.
  Operations that read the clock take \<open>now\<close>, the value \<open>datetime.utcnow()\<close> returns.
\<close>

record Embedding =
  emb_segment_id :: string
  emb_model :: string
  emb_vector :: "real list"
  emb_created_at :: timestamp

record KnowledgeStore =
  information_resources :: "InformationResource list"
  resource_segments :: "ResourceSegment list"
  entities :: "Entity list"
  segment_entity_links :: "EntityLink list"
  embeddings :: "Embedding list"

definition empty_store :: KnowledgeStore where
  "empty_store =
     \<lparr>information_resources = [], resource_segments = [], entities = [],
      segment_entity_links = [], embeddings = []\<rparr>"

text \<open>The truth value of an \<open>Optional[str]\<close> argument in \<open>if namespace:\<close>: \<open>None\<close> and
  the empty string are false.\<close>

definition truthy :: "string option \<Rightarrow> bool" where
  "truthy x = (case x of None \<Rightarrow> False | Some v \<Rightarrow> v \<noteq> [])"

subsection \<open>InformationResource operations\<close>

definition get_ir_by_id :: "KnowledgeStore \<Rightarrow> string \<Rightarrow> InformationResource option" where
  "get_ir_by_id s i = find (\<lambda>r. ir_id r = i) (information_resources s)"

definition get_ir_by_uri :: "KnowledgeStore \<Rightarrow> string \<Rightarrow> string \<Rightarrow> InformationResource option" where
  "get_ir_by_uri s namespace source_uri =
     find (\<lambda>r. ir_namespace r = namespace \<and> ir_source_uri r = source_uri)
       (information_resources s)"

text \<open>\<open>INSERT INTO information_resources\<close>, under \<open>PRIMARY KEY (id)\<close> and
  \<open>UNIQUE (namespace, source_uri)\<close>.\<close>

definition insert_ir :: "KnowledgeStore \<Rightarrow> InformationResource \<Rightarrow> error + KnowledgeStore" where
  "insert_ir s ir =
     (if list_ex (\<lambda>r. ir_id r = ir_id ir \<or>
                      (ir_namespace r = ir_namespace ir \<and> ir_source_uri r = ir_source_uri ir))
           (information_resources s)
      then Inl ConstraintException
      else Inr (s\<lparr>information_resources := information_resources s @ [ir]\<rparr>))"

definition upsert_information_resource ::
  "KnowledgeStore \<Rightarrow> timestamp \<Rightarrow> InformationResource \<Rightarrow> error + InformationResource \<times> KnowledgeStore"
where
  "upsert_information_resource s now ir =
     (case get_ir_by_uri s (ir_namespace ir) (ir_source_uri ir) of
        Some existing \<Rightarrow>
          let ir = ir\<lparr>ir_updated_at := now\<rparr>;
              s = s\<lparr>information_resources :=
                      map (\<lambda>r. if ir_id r = ir_id existing
                               then r\<lparr>ir_content_hash := ir_content_hash ir,
                                      ir_metadata := ir_metadata ir,
                                      ir_updated_at := ir_updated_at ir\<rparr>
                               else r)
                        (information_resources s)\<rparr>;
              ir = ir\<lparr>ir_id := ir_id existing, ir_created_at := ir_created_at existing\<rparr>
          in Inr (ir, s)
      | None \<Rightarrow>
          (case insert_ir s ir of Inl e \<Rightarrow> Inl e | Inr s \<Rightarrow> Inr (ir, s)))"

subsection \<open>ResourceSegment operations\<close>

definition get_segment_by_id :: "KnowledgeStore \<Rightarrow> string \<Rightarrow> ResourceSegment option" where
  "get_segment_by_id s i = find (\<lambda>r. seg_id r = i) (resource_segments s)"

text \<open>\<open>upsert_segment\<close> returns the segment it was given, with \<open>created_at\<close> taken from
  the stored row when there is one.  The \<open>INSERT\<close> cannot fail on the primary key: it
  runs only when no row has the identifier.\<close>

definition upsert_segment ::
  "KnowledgeStore \<Rightarrow> ResourceSegment \<Rightarrow> ResourceSegment \<times> KnowledgeStore"
where
  "upsert_segment s segment =
     (case get_segment_by_id s (seg_id segment) of
        Some existing \<Rightarrow>
          (segment\<lparr>seg_created_at := seg_created_at existing\<rparr>,
           s\<lparr>resource_segments :=
               map (\<lambda>r. if seg_id r = seg_id segment
                        then r\<lparr>seg_text := seg_text segment,
                               seg_provenance := seg_provenance segment,
                               seg_text_hash := seg_text_hash segment\<rparr>
                        else r)
                 (resource_segments s)\<rparr>)
      | None \<Rightarrow> (segment, s\<lparr>resource_segments := resource_segments s @ [segment]\<rparr>))"

text \<open>\<open>bulk_upsert_segments\<close>: the loop over the segments.  The Python returns only the
  count; the segment objects it was given are updated in place, so the model returns
  them too.\<close>

fun bulk_upsert_segments ::
  "KnowledgeStore \<Rightarrow> ResourceSegment list \<Rightarrow> ResourceSegment list \<times> KnowledgeStore"
where
  "bulk_upsert_segments s [] = ([], s)"
| "bulk_upsert_segments s (segment # segments) =
     (let (segment, s) = upsert_segment s segment;
          (rest, s) = bulk_upsert_segments s segments
      in (segment # rest, s))"

definition get_segments_for_ir :: "KnowledgeStore \<Rightarrow> string \<Rightarrow> ResourceSegment list" where
  "get_segments_for_ir s i =
     sort_key seg_segment_index (filter (\<lambda>r. seg_ir_id r = i) (resource_segments s))"

definition count_segments :: "KnowledgeStore \<Rightarrow> string option \<Rightarrow> nat" where
  "count_segments s namespace =
     (if truthy namespace then
        length
          [(rs, ir). rs \<leftarrow> resource_segments s, ir \<leftarrow> information_resources s,
                     seg_ir_id rs = ir_id ir, ir_namespace ir = the namespace]
      else length (resource_segments s))"

subsection \<open>Entity operations\<close>

definition get_entity_by_id :: "KnowledgeStore \<Rightarrow> string \<Rightarrow> Entity option" where
  "get_entity_by_id s i = find (\<lambda>r. ent_id r = i) (entities s)"

definition get_entity_by_name :: "KnowledgeStore \<Rightarrow> string \<Rightarrow> string \<Rightarrow> string \<Rightarrow> Entity option" where
  "get_entity_by_name s namespace entity_type name =
     find (\<lambda>r. ent_namespace r = namespace \<and> ent_type r = entity_type \<and> ent_name r = name)
       (entities s)"

text \<open>\<open>INSERT INTO entities\<close>, under \<open>PRIMARY KEY (id)\<close> and
  \<open>UNIQUE (namespace, type, name)\<close>.\<close>

definition insert_entity :: "KnowledgeStore \<Rightarrow> Entity \<Rightarrow> error + KnowledgeStore" where
  "insert_entity s e =
     (if list_ex (\<lambda>r. ent_id r = ent_id e \<or>
                      (ent_namespace r = ent_namespace e \<and> ent_type r = ent_type e \<and>
                       ent_name r = ent_name e))
           (entities s)
      then Inl ConstraintException
      else Inr (s\<lparr>entities := entities s @ [e]\<rparr>))"

definition upsert_entity ::
  "KnowledgeStore \<Rightarrow> timestamp \<Rightarrow> Entity \<Rightarrow> error + Entity \<times> KnowledgeStore"
where
  "upsert_entity s now entity =
     (case get_entity_by_name s (ent_namespace entity) (ent_type entity) (ent_name entity) of
        Some existing \<Rightarrow>
          let entity = entity\<lparr>ent_updated_at := now\<rparr>;
              s = s\<lparr>entities :=
                      map (\<lambda>r. if ent_id r = ent_id existing
                               then r\<lparr>ent_aliases := ent_aliases entity,
                                      ent_metadata := ent_metadata entity,
                                      ent_updated_at := ent_updated_at entity\<rparr>
                               else r)
                        (entities s)\<rparr>;
              entity = entity\<lparr>ent_id := ent_id existing, ent_created_at := ent_created_at existing\<rparr>
          in Inr (entity, s)
      | None \<Rightarrow>
          (case insert_entity s entity of Inl e \<Rightarrow> Inl e | Inr s \<Rightarrow> Inr (entity, s)))"

text \<open>\<open>list_entities\<close>: the optional filters are applied when their argument is true,
  and the rows come back \<open>ORDER BY name\<close>.\<close>

definition list_entities :: "KnowledgeStore \<Rightarrow> string option \<Rightarrow> string option \<Rightarrow> Entity list" where
  "list_entities s namespace entity_type =
     sort_key ent_name
       (filter (\<lambda>r. (truthy namespace \<longrightarrow> ent_namespace r = the namespace) \<and>
                    (truthy entity_type \<longrightarrow> ent_type r = the entity_type))
          (entities s))"

subsection \<open>EntityLink operations\<close>

definition same_link_key :: "EntityLink \<Rightarrow> EntityLink \<Rightarrow> bool" where
  "same_link_key a b =
     (link_segment_id a = link_segment_id b \<and> link_entity_id a = link_entity_id b \<and>
      link_type a = link_type b)"

text \<open>\<open>INSERT OR REPLACE INTO segment_entity_links\<close>, keyed by
  \<open>UNIQUE (segment_id, entity_id, link_type)\<close>.\<close>

definition add_entity_link :: "KnowledgeStore \<Rightarrow> EntityLink \<Rightarrow> KnowledgeStore" where
  "add_entity_link s link =
     (if list_ex (same_link_key link) (segment_entity_links s)
      then s\<lparr>segment_entity_links :=
               map (\<lambda>r. if same_link_key link r then link else r) (segment_entity_links s)\<rparr>
      else s\<lparr>segment_entity_links := segment_entity_links s @ [link]\<rparr>)"

definition bulk_add_entity_links :: "KnowledgeStore \<Rightarrow> EntityLink list \<Rightarrow> KnowledgeStore" where
  "bulk_add_entity_links s links = fold (\<lambda>link s. add_entity_link s link) links s"

text \<open>A list comprehension whose elements may raise: the first error, or all values.\<close>

fun collect :: "('e + 'a) list \<Rightarrow> 'e + 'a list" where
  "collect [] = Inr []"
| "collect (x # xs) =
     (case x of
        Inl e \<Rightarrow> Inl e
      | Inr v \<Rightarrow> (case collect xs of Inl e \<Rightarrow> Inl e | Inr vs \<Rightarrow> Inr (v # vs)))"

text \<open>The rows of the join of \<open>resource_segments\<close> with \<open>segment_entity_links\<close> on the
  segment identifier, for one entity, \<open>ORDER BY rs.created_at\<close> (rows with equal
  \<open>created_at\<close> keep their scan order).\<close>

definition segment_link_rows :: "KnowledgeStore \<Rightarrow> string \<Rightarrow> (ResourceSegment \<times> EntityLink) list" where
  "segment_link_rows s entity_id =
     sort_key (\<lambda>(rs, sel). seg_created_at rs)
       [(rs, sel). rs \<leftarrow> resource_segments s, sel \<leftarrow> segment_entity_links s,
                   seg_id rs = link_segment_id sel, link_entity_id sel = entity_id]"

text \<open>\<open>get_segments_for_entity\<close>: every row becomes a pair of objects.  The
  \<open>EntityLink\<close> constructor validates the stored confidence again; \<open>created_at\<close> comes
  from the row, so the clock is never read.\<close>

definition get_segments_for_entity ::
  "KnowledgeStore \<Rightarrow> string \<Rightarrow> error + (ResourceSegment \<times> EntityLink) list"
where
  "get_segments_for_entity s entity_id =
     collect
       (map (\<lambda>(rs, sel).
               case EntityLink_init (link_created_at sel) (seg_id rs) entity_id (link_type sel)
                      (link_confidence sel) (Some (link_created_at sel)) of
                 Inl e \<Rightarrow> Inl e
               | Inr link \<Rightarrow> Inr (rs, link))
          (segment_link_rows s entity_id))"

subsection \<open>Embedding operations\<close>

text \<open>\<open>INSERT OR REPLACE INTO embeddings\<close>, keyed by \<open>PRIMARY KEY (segment_id)\<close>.\<close>

definition add_embedding ::
  "KnowledgeStore \<Rightarrow> timestamp \<Rightarrow> string \<Rightarrow> string \<Rightarrow> real list \<Rightarrow> KnowledgeStore"
where
  "add_embedding s now segment_id model vector =
     (let row = \<lparr>emb_segment_id = segment_id, emb_model = model, emb_vector = vector,
                 emb_created_at = now\<rparr>
      in if list_ex (\<lambda>r. emb_segment_id r = segment_id) (embeddings s)
         then s\<lparr>embeddings :=
                  map (\<lambda>r. if emb_segment_id r = segment_id then row else r) (embeddings s)\<rparr>
         else s\<lparr>embeddings := embeddings s @ [row]\<rparr>)"

text \<open>\<open>bulk_add_embeddings\<close>: the loop over \<open>zip(segment_ids, vectors)\<close>; \<open>clock k\<close> is
  the time of the \<open>k\<close>-th insertion.\<close>

fun bulk_add_embeddings ::
  "KnowledgeStore \<Rightarrow> (nat \<Rightarrow> timestamp) \<Rightarrow> string list \<Rightarrow> string \<Rightarrow> real list list \<Rightarrow> KnowledgeStore"
where
  "bulk_add_embeddings s clock (sid # segment_ids) model (vec # vectors) =
     bulk_add_embeddings (add_embedding s (clock 0) sid model vec) (\<lambda>k. clock (Suc k))
       segment_ids model vectors"
| "bulk_add_embeddings s clock _ model _ = s"

definition get_embedding :: "KnowledgeStore \<Rightarrow> string \<Rightarrow> (string \<times> real list) option" where
  "get_embedding s segment_id =
     (case find (\<lambda>r. emb_segment_id r = segment_id) (embeddings s) of
        None \<Rightarrow> None
      | Some r \<Rightarrow> Some (emb_model r, emb_vector r))"

subsection \<open>Search by embedding\<close>

text \<open>NumPy on vectors of finite floats, idealised as reals: \<open>np.dot\<close> raises
  \<open>ValueError\<close> when the lengths differ; a floating-point division by zero does not
  raise but yields \<open>nan\<close> for \<open>0 / 0\<close> and an infinity otherwise.\<close>

definition np_dot :: "real list \<Rightarrow> real list \<Rightarrow> error + real" where
  "np_dot u v =
     (if length u = length v then Inr (\<Sum>(x, y)\<leftarrow>zip u v. x * y) else Inl ValueError)"

definition np_norm :: "real list \<Rightarrow> real" where
  "np_norm v = sqrt (\<Sum>x\<leftarrow>v. x * x)"

definition np_divide :: "real \<Rightarrow> real \<Rightarrow> pyfloat" where
  "np_divide a b =
     (if b = 0 then (if a = 0 then NaN else if 0 < a then PosInf else NegInf)
      else Finite (a / b))"

record SearchResult =
  sr_segment_id :: string
  sr_text :: string
  sr_provenance :: pydict
  sr_source_uri :: string
  sr_namespace :: string
  sr_score :: pyfloat

text \<open>The rows of the join \<open>embeddings\<close>, \<open>resource_segments\<close>,
  \<open>information_resources\<close>, filtered by namespace when the argument is true.\<close>

definition embedding_rows ::
  "KnowledgeStore \<Rightarrow> string option \<Rightarrow> (Embedding \<times> ResourceSegment \<times> InformationResource) list"
where
  "embedding_rows s namespace =
     [(e, rs, ir). e \<leftarrow> embeddings s, rs \<leftarrow> resource_segments s, emb_segment_id e = seg_id rs,
                   ir \<leftarrow> information_resources s, seg_ir_id rs = ir_id ir,
                   \<not> truthy namespace \<or> ir_namespace ir = the namespace]"

text \<open>The body of the scoring loop for one row.\<close>

definition score_row ::
  "real list \<Rightarrow> Embedding \<times> ResourceSegment \<times> InformationResource \<Rightarrow> error + SearchResult"
where
  "score_row query_embedding row =
     (case row of (e, rs, ir) \<Rightarrow>
        (case np_dot query_embedding (emb_vector e) of
           Inl err \<Rightarrow> Inl err
         | Inr dot_product \<Rightarrow>
             let norm_query = np_norm query_embedding;
                 norm_vector = np_norm (emb_vector e);
                 similarity = np_divide dot_product (norm_query * norm_vector)
             in Inr \<lparr>sr_segment_id = emb_segment_id e, sr_text = seg_text rs,
                     sr_provenance = seg_provenance rs, sr_source_uri = ir_source_uri ir,
                     sr_namespace = ir_namespace ir, sr_score = similarity\<rparr>))"

text \<open>\<open>similarities.sort(key=score, reverse=True)\<close>: a stable sort into descending
  order that compares scores with \<open><\<close>.  Where no score is \<open>nan\<close> this is the order
  Python produces; the position CPython gives to a \<open>nan\<close> score is not modelled.\<close>

fun insert_desc :: "SearchResult \<Rightarrow> SearchResult list \<Rightarrow> SearchResult list" where
  "insert_desc x [] = [x]"
| "insert_desc x (y # ys) =
     (if py_lt (sr_score x) (sr_score y) then y # insert_desc x ys else x # y # ys)"

definition sort_desc :: "SearchResult list \<Rightarrow> SearchResult list" where
  "sort_desc xs = foldr insert_desc xs []"

text \<open>\<open>xs[:k]\<close> for an integer \<open>k\<close>.\<close>

definition slice_to :: "int \<Rightarrow> 'a list \<Rightarrow> 'a list" where
  "slice_to k xs = (if 0 \<le> k then take (nat k) xs else take (length xs - nat (- k)) xs)"

definition search_by_embedding ::
  "KnowledgeStore \<Rightarrow> real list \<Rightarrow> int \<Rightarrow> string option \<Rightarrow> error + SearchResult list"
where
  "search_by_embedding s query_embedding top_k namespace =
     (let results = embedding_rows s namespace in
      if results = [] then Inr []
      else
        (case collect (map (score_row query_embedding) results) of
           Inl e \<Rightarrow> Inl e
         | Inr similarities \<Rightarrow> Inr (slice_to top_k (sort_desc similarities))))"

section \<open>Exact recall (\<open>docmine/search/exact_recall.py\<close>)\<close>

record RecallResult =
  rr_segment_id :: string
  rr_text :: string
  rr_provenance :: pydict
  rr_source_uri :: "string option"
  rr_namespace :: "string option"
  rr_link_type :: string
  rr_confidence :: pyfloat

text \<open>The dictionary that the loop of \<open>get_all_segments_for_entity\<close> builds for one
  pair; \<open>None\<close> stands where the segment's resource is not in the store.\<close>

definition recall_result :: "KnowledgeStore \<Rightarrow> ResourceSegment \<times> EntityLink \<Rightarrow> RecallResult" where
  "recall_result s pair =
     (case pair of (segment, link) \<Rightarrow>
        let ir = get_ir_by_id s (seg_ir_id segment) in
        \<lparr>rr_segment_id = seg_id segment, rr_text = seg_text segment,
         rr_provenance = seg_provenance segment,
         rr_source_uri = map_option ir_source_uri ir,
         rr_namespace = map_option ir_namespace ir,
         rr_link_type = link_type link, rr_confidence = link_confidence link\<rparr>)"

definition get_all_segments_for_entity :: "KnowledgeStore \<Rightarrow> string \<Rightarrow> error + RecallResult list" where
  "get_all_segments_for_entity s entity_id =
     (case get_segments_for_entity s entity_id of
        Inl e \<Rightarrow> Inl e
      | Inr results \<Rightarrow> Inr (map (recall_result s) results))"

text \<open>\<open>ExactRecall.get_entity\<close>: by exact key when a type is given, otherwise the first
  entity of the namespace listing whose name or one of whose aliases is the name.\<close>

definition get_entity :: "KnowledgeStore \<Rightarrow> string \<Rightarrow> string \<Rightarrow> string option \<Rightarrow> Entity option" where
  "get_entity s name namespace entity_type =
     (if truthy entity_type then get_entity_by_name s namespace (the entity_type) name
      else find (\<lambda>e. ent_name e = name \<or> name \<in> set (ent_aliases e))
             (list_entities s (Some namespace) None))"

section \<open>Ingestion pipeline (\<open>docmine/ingest/knowledge_pipeline.py\<close>)\<close>

text \<open>
  What the pipeline reads from outside the store is collected in an environment: the
  file system (the bytes of the file at an absolute, normalised path, or \<open>None\<close>), the
  text that \<open>open(path, 'r', encoding='utf-8').read()\<close> decodes from bytes (\<open>None\<close>
  when decoding fails), the page extractor, the entity extractor (a function of the
  text, which may raise), the embedding model, the clock and the UUID generator, and the
  three settings of \<open>KOSPipeline\<close>.  The clock and the generator are read through a
  tick: \<open>utcnow env k\<close> and \<open>uuid4 env k\<close> are the values returned at tick \<open>k\<close>, every
  operation that may read either is given ticks of its own, and a tick that is not read
  is skipped.  The state of a pipeline is the store together with the next tick.
\<close>

record Env =
  fs :: "string \<Rightarrow> byte list option"
  decode_text :: "byte list \<Rightarrow> string option"
  pdf_extract :: "string \<Rightarrow> Page list"
  entity_extract :: "string \<Rightarrow> error + ExtractedEntity list"
  encode :: "string list \<Rightarrow> real list list"
  utcnow :: "nat \<Rightarrow> timestamp"
  uuid4 :: "nat \<Rightarrow> string"
  default_namespace :: string
  embedding_model_name :: string
  sentences_per_segment :: int

text \<open>The truth value of an \<open>Optional[dict]\<close>: \<open>None\<close> and the empty dictionary are
  false.\<close>

definition dict_truthy :: "pydict option \<Rightarrow> bool" where
  "dict_truthy x = (case x of None \<Rightarrow> False | Some d \<Rightarrow> d \<noteq> [])"

text \<open>\<open>with open(path, 'r', encoding='utf-8') as f: text = f.read()\<close>.\<close>

definition read_text :: "Env \<Rightarrow> string \<Rightarrow> error + string" where
  "read_text env path =
     (case fs env path of
        None \<Rightarrow> Inl FileNotFoundError
      | Some content \<Rightarrow>
          (case decode_text env content of
             None \<Rightarrow> Inl UnicodeDecodeError
           | Some text \<Rightarrow> Inr text))"

text \<open>\<open>_register_ir\<close>.  The new resource takes its identifier and its two timestamps
  from three ticks.\<close>

definition register_ir ::
  "Env \<Rightarrow> KnowledgeStore \<times> nat \<Rightarrow> string \<Rightarrow> string \<Rightarrow> string \<Rightarrow> pydict option \<Rightarrow>
   error + InformationResource \<times> (KnowledgeStore \<times> nat)"
where
  "register_ir env w file_path namespace source_type metadata =
     (case w of (s, t) \<Rightarrow>
        let source_uri = ''file://'' @ file_path in
        (case fs env file_path of
           None \<Rightarrow> Inl FileNotFoundError
         | Some content \<Rightarrow>
             let content_hash = generate_content_hash content in
             (case get_ir_by_uri s namespace source_uri of
                Some existing \<Rightarrow>
                  if ir_content_hash existing \<noteq> content_hash then
                    let existing = existing\<lparr>ir_content_hash := content_hash\<rparr>;
                        existing =
                          (if dict_truthy metadata
                           then existing\<lparr>ir_metadata :=
                                           dict_update (ir_metadata existing) (the metadata)\<rparr>
                           else existing)
                    in (case upsert_information_resource s (utcnow env t) existing of
                          Inl e \<Rightarrow> Inl e
                        | Inr (ir, s) \<Rightarrow> Inr (ir, (s, t + 1)))
                  else Inr (existing, (s, t))
              | None \<Rightarrow>
                  let ir = \<lparr>ir_id = uuid4 env t, ir_namespace = namespace,
                            ir_source_type = source_type, ir_source_uri = source_uri,
                            ir_content_hash = content_hash,
                            ir_metadata = (if dict_truthy metadata then the metadata else []),
                            ir_created_at = utcnow env (t + 1),
                            ir_updated_at = utcnow env (t + 2)\<rparr>
                  in (case upsert_information_resource s (utcnow env (t + 3)) ir of
                        Inl e \<Rightarrow> Inl e
                      | Inr (ir, s) \<Rightarrow> Inr (ir, (s, t + 4))))))"

text \<open>The body of the inner loop of \<open>_extract_and_link_entities\<close> for one extracted
  entity: get or create the entity, then build the link.  The state is
  \<open>(all_entities, all_links, store, tick)\<close>.\<close>

definition link_extracted_entity ::
  "Env \<Rightarrow> string \<Rightarrow> ResourceSegment \<Rightarrow> ExtractedEntity \<Rightarrow>
   Entity list \<times> EntityLink list \<times> KnowledgeStore \<times> nat \<Rightarrow>
   error + Entity list \<times> EntityLink list \<times> KnowledgeStore \<times> nat"
where
  "link_extracted_entity env namespace segment ext_entity st =
     (case st of (all_entities, all_links, s, t) \<Rightarrow>
        (case (case get_entity_by_name s namespace (ext_type ext_entity) (ext_name ext_entity) of
                 Some entity \<Rightarrow> Inr (entity, all_entities, s)
               | None \<Rightarrow>
                   let entity = \<lparr>ent_id = uuid4 env t, ent_namespace = namespace,
                                 ent_type = ext_type ext_entity, ent_name = ext_name ext_entity,
                                 ent_aliases = ext_aliases ext_entity,
                                 ent_metadata = ext_metadata ext_entity,
                                 ent_created_at = utcnow env (t + 1),
                                 ent_updated_at = utcnow env (t + 2)\<rparr>
                   in (case upsert_entity s (utcnow env (t + 3)) entity of
                         Inl e \<Rightarrow> Inl e
                       | Inr (entity, s) \<Rightarrow> Inr (entity, all_entities @ [entity], s))) of
           Inl e \<Rightarrow> Inl e
         | Inr (entity, all_entities, s) \<Rightarrow>
             (case EntityLink_init (utcnow env (t + 4)) (seg_id segment) (ent_id entity)
                     ''mentions'' (ext_confidence ext_entity) None of
                Inl e \<Rightarrow> Inl e
              | Inr link \<Rightarrow> Inr (all_entities, all_links @ [link], s, t + 5))))"

fun link_extracted ::
  "Env \<Rightarrow> string \<Rightarrow> ResourceSegment \<Rightarrow> ExtractedEntity list \<Rightarrow>
   Entity list \<times> EntityLink list \<times> KnowledgeStore \<times> nat \<Rightarrow>
   error + Entity list \<times> EntityLink list \<times> KnowledgeStore \<times> nat"
where
  "link_extracted env namespace segment [] st = Inr st"
| "link_extracted env namespace segment (ext_entity # extracted) st =
     (case link_extracted_entity env namespace segment ext_entity st of
        Inl e \<Rightarrow> Inl e
      | Inr st \<Rightarrow> link_extracted env namespace segment extracted st)"

text \<open>The outer loop over the segments.\<close>

fun extract_loop ::
  "Env \<Rightarrow> string \<Rightarrow> ResourceSegment list \<Rightarrow>
   Entity list \<times> EntityLink list \<times> KnowledgeStore \<times> nat \<Rightarrow>
   error + Entity list \<times> EntityLink list \<times> KnowledgeStore \<times> nat"
where
  "extract_loop env namespace [] st = Inr st"
| "extract_loop env namespace (segment # segments) st =
     (case entity_extract env (seg_text segment) of
        Inl e \<Rightarrow> Inl e
      | Inr extracted \<Rightarrow>
          (case link_extracted env namespace segment extracted st of
             Inl e \<Rightarrow> Inl e
           | Inr st \<Rightarrow> extract_loop env namespace segments st))"

definition extract_and_link_entities ::
  "Env \<Rightarrow> KnowledgeStore \<times> nat \<Rightarrow> ResourceSegment list \<Rightarrow> string \<Rightarrow>
   error + Entity list \<times> (KnowledgeStore \<times> nat)"
where
  "extract_and_link_entities env w segments namespace =
     (case w of (s, t) \<Rightarrow>
        (case extract_loop env namespace segments ([], [], s, t) of
           Inl e \<Rightarrow> Inl e
         | Inr (all_entities, all_links, s, t) \<Rightarrow>
             let s = (if all_links \<noteq> [] then bulk_add_entity_links s all_links else s)
             in Inr (all_entities, (s, t))))"

text \<open>The last steps of \<open>ingest_pdf\<close>, \<open>ingest_markdown\<close> and \<open>ingest_text\<close>, which
  the three functions share word for word: return early without segments, store the
  segments, extract and link the entities.\<close>

definition store_and_link ::
  "Env \<Rightarrow> KnowledgeStore \<times> nat \<Rightarrow> InformationResource \<Rightarrow> ResourceSegment list \<Rightarrow> string \<Rightarrow>
   error + (InformationResource \<times> ResourceSegment list \<times> Entity list) \<times> (KnowledgeStore \<times> nat)"
where
  "store_and_link env w ir segments namespace =
     (if segments = [] then Inr ((ir, [], []), w)
      else
        (case w of (s, t) \<Rightarrow>
           (case bulk_upsert_segments s segments of (segments, s) \<Rightarrow>
              (case extract_and_link_entities env (s, t) segments namespace of
                 Inl e \<Rightarrow> Inl e
               | Inr (found, w) \<Rightarrow> Inr ((ir, segments, found), w)))))"

definition ingest_pdf ::
  "Env \<Rightarrow> KnowledgeStore \<times> nat \<Rightarrow> string \<Rightarrow> string \<Rightarrow> pydict option \<Rightarrow>
   error + (InformationResource \<times> ResourceSegment list \<times> Entity list) \<times> (KnowledgeStore \<times> nat)"
where
  "ingest_pdf env w pdf_path namespace metadata =
     (case register_ir env w pdf_path namespace ''pdf'' metadata of
        Inl e \<Rightarrow> Inl e
      | Inr (ir, (s, t)) \<Rightarrow>
          let pages = pdf_extract env pdf_path in
          if pages = [] then Inr ((ir, [], []), (s, t))
          else
            (case segment_pages (\<lambda>k. utcnow env (t + k)) (sentences_per_segment env) pages
                    (ir_id ir) (ir_namespace ir) (ir_source_uri ir) of
               Inl e \<Rightarrow> Inl e
             | Inr segments \<Rightarrow> store_and_link env (s, t + length segments) ir segments namespace))"

definition ingest_markdown ::
  "Env \<Rightarrow> KnowledgeStore \<times> nat \<Rightarrow> string \<Rightarrow> string \<Rightarrow> pydict option \<Rightarrow>
   error + (InformationResource \<times> ResourceSegment list \<times> Entity list) \<times> (KnowledgeStore \<times> nat)"
where
  "ingest_markdown env w md_path namespace metadata =
     (case register_ir env w md_path namespace ''md'' metadata of
        Inl e \<Rightarrow> Inl e
      | Inr (ir, (s, t)) \<Rightarrow>
          (case read_text env md_path of
             Inl e \<Rightarrow> Inl e
           | Inr text \<Rightarrow>
               if strip text = [] then Inr ((ir, [], []), (s, t))
               else
                 (case segment_markdown (\<lambda>k. utcnow env (t + k)) (sentences_per_segment env)
                         text (ir_id ir) namespace (ir_source_uri ir) of
                    Inl e \<Rightarrow> Inl e
                  | Inr segments \<Rightarrow>
                      store_and_link env (s, t + length segments) ir segments namespace)))"

definition ingest_text ::
  "Env \<Rightarrow> KnowledgeStore \<times> nat \<Rightarrow> string \<Rightarrow> string \<Rightarrow> pydict option \<Rightarrow>
   error + (InformationResource \<times> ResourceSegment list \<times> Entity list) \<times> (KnowledgeStore \<times> nat)"
where
  "ingest_text env w txt_path namespace metadata =
     (case register_ir env w txt_path namespace ''txt'' metadata of
        Inl e \<Rightarrow> Inl e
      | Inr (ir, (s, t)) \<Rightarrow>
          (case read_text env txt_path of
             Inl e \<Rightarrow> Inl e
           | Inr text \<Rightarrow>
               if strip text = [] then Inr ((ir, [], []), (s, t))
               else
                 (case segment_text (\<lambda>k. utcnow env (t + k)) (sentences_per_segment env)
                         text (ir_id ir) namespace (ir_source_uri ir) of
                    Inl e \<Rightarrow> Inl e
                  | Inr segments \<Rightarrow>
                      store_and_link env (s, t + length segments) ir segments namespace)))"

section \<open>KOS pipeline (\<open>docmine/kos_pipeline.py\<close>)\<close>

text \<open>\<open>namespace or self.namespace\<close>.\<close>

definition or_default :: "Env \<Rightarrow> string option \<Rightarrow> string" where
  "or_default env namespace = (if truthy namespace then the namespace else default_namespace env)"

text \<open>\<open>Path(p).suffix\<close>: the part of the last path component from its last dot on,
  unless that dot is its first or its last character; and \<open>str.lower()\<close>.\<close>

definition path_name :: "string \<Rightarrow> string" where
  "path_name p = rev (takeWhile (\<lambda>c. c \<noteq> CHR ''/'') (rev p))"

definition path_suffix :: "string \<Rightarrow> string" where
  "path_suffix p =
     (let name = path_name p;
          ext = rev (takeWhile (\<lambda>c. c \<noteq> CHR ''.'') (rev name))
      in if CHR ''.'' \<notin> set name \<or> ext = [] \<or> Suc (length ext) = length name then []
         else CHR ''.'' # ext)"

definition lower_char :: "char \<Rightarrow> char" where
  "lower_char c =
     (let n = (of_char c :: nat) in
      if (65 \<le> n \<and> n \<le> 90) \<or> (192 \<le> n \<and> n \<le> 222 \<and> n \<noteq> 215) then char_of (n + 32) else c)"

definition lower :: "string \<Rightarrow> string" where
  "lower s = map lower_char s"

text \<open>\<open>_embed_segments\<close>: the segments without an embedding are encoded and stored.\<close>

definition embed_segments ::
  "Env \<Rightarrow> KnowledgeStore \<times> nat \<Rightarrow> ResourceSegment list \<Rightarrow> KnowledgeStore \<times> nat"
where
  "embed_segments env w segments =
     (case w of (s, t) \<Rightarrow>
        let to_embed = filter (\<lambda>seg. get_embedding s (seg_id seg) = None) segments in
        if to_embed = [] then (s, t)
        else
          let texts = map seg_text to_embed;
              vectors = encode env texts;
              segment_ids = map seg_id to_embed
          in (bulk_add_embeddings s (\<lambda>k. utcnow env (t + k)) segment_ids
                (embedding_model_name env) vectors,
              t + length segment_ids))"

text \<open>\<open>KOSPipeline.ingest_file\<close> returns the number of segments.\<close>

definition ingest_file ::
  "Env \<Rightarrow> KnowledgeStore \<times> nat \<Rightarrow> string \<Rightarrow> string option \<Rightarrow> pydict option \<Rightarrow>
   error + nat \<times> (KnowledgeStore \<times> nat)"
where
  "ingest_file env w file_path namespace metadata =
     (if fs env file_path = None then Inl FileNotFoundError
      else
        let ns = or_default env namespace;
            suffix = lower (path_suffix file_path)
        in (case (if suffix = ''.pdf'' then ingest_pdf env w file_path ns metadata
                  else if suffix = ''.md'' then ingest_markdown env w file_path ns metadata
                  else if suffix = ''.txt'' then ingest_text env w file_path ns metadata
                  else Inl ValueError) of
              Inl e \<Rightarrow> Inl e
            | Inr ((ir, segments, found), w) \<Rightarrow>
                let w = (if segments \<noteq> [] then embed_segments env w segments else w)
                in Inr (length segments, w)))"

text \<open>\<open>KOSPipeline.count_segments\<close>.\<close>

definition kos_count_segments :: "Env \<Rightarrow> KnowledgeStore \<Rightarrow> string option \<Rightarrow> nat" where
  "kos_count_segments env s namespace = count_segments s (Some (or_default env namespace))"



text \<open>The invariant of the link table: every stored confidence passed the constructor's
  check.\<close>

definition links_valid :: "KnowledgeStore \<Rightarrow> bool" where
  "links_valid s = list_all (\<lambda>l. confidence_ok (link_confidence l)) (segment_entity_links s)"

text \<open>A pair of a segment row and a link row that the join for an entity selects.\<close>

definition linked_to :: "string \<Rightarrow> ResourceSegment \<times> EntityLink \<Rightarrow> bool" where
  "linked_to entity_id pair =
     (case pair of (rs, sel) \<Rightarrow> seg_id rs = link_segment_id sel \<and> link_entity_id sel = entity_id)"

text \<open>A segment is owned by a namespace when a resource of that namespace has the
  identifier in its \<open>ir_id\<close> column.\<close>

definition owned_by_namespace :: "KnowledgeStore \<Rightarrow> string \<Rightarrow> ResourceSegment \<Rightarrow> bool" where
  "owned_by_namespace s a rs =
     list_ex (\<lambda>ir. ir_id ir = seg_ir_id rs \<and> ir_namespace ir = a) (information_resources s)"

text \<open>The store without what belongs to a namespace: its resources, the segments they
  own and its entities.\<close>

definition without_namespace :: "string \<Rightarrow> KnowledgeStore \<Rightarrow> KnowledgeStore" where
  "without_namespace a s =
     s\<lparr>information_resources := filter (\<lambda>ir. ir_namespace ir \<noteq> a) (information_resources s),
       resource_segments := filter (\<lambda>rs. \<not> owned_by_namespace s a rs) (resource_segments s),
       entities := filter (\<lambda>e. ent_namespace e \<noteq> a) (entities s)\<rparr>"

text \<open>A segment without its creation time, and a segmentation result without the
  creation times.\<close>

definition untimed :: "ResourceSegment \<Rightarrow> ResourceSegment" where
  "untimed seg = seg\<lparr>seg_created_at := 0\<rparr>"

definition timeless :: "error + ResourceSegment list \<Rightarrow> error + ResourceSegment list" where
  "timeless r = (case r of Inl e \<Rightarrow> Inl e | Inr segs \<Rightarrow> Inr (map untimed segs))"

text \<open>A function applied to the value of a result that is not an error.\<close>

definition on_value :: "('a \<Rightarrow> 'b) \<Rightarrow> error + 'a \<Rightarrow> error + 'b" where
  "on_value f r = (case r of Inl e \<Rightarrow> Inl e | Inr v \<Rightarrow> Inr (f v))"

text \<open>The identifiers in the segment table.\<close>

definition segment_ids :: "KnowledgeStore \<Rightarrow> string set" where
  "segment_ids s = set (map seg_id (resource_segments s))"

text \<open>The store has an entity with the namespace, type and name of an extracted
  entity; and the entity stage of the pipeline has nothing to create for a text: the
  extractor returns, every confidence passes the check of the link constructor, and
  every extracted entity is in the store.\<close>

definition known_entity :: "KnowledgeStore \<Rightarrow> string \<Rightarrow> ExtractedEntity \<Rightarrow> bool" where
  "known_entity s ns x = (get_entity_by_name s ns (ext_type x) (ext_name x) \<noteq> None)"

definition resolvable :: "Env \<Rightarrow> string \<Rightarrow> KnowledgeStore \<Rightarrow> string \<Rightarrow> bool" where
  "resolvable env ns s text =
     (case entity_extract env text of
        Inl e \<Rightarrow> False
      | Inr xs \<Rightarrow> list_all (\<lambda>x. confidence_ok (ext_confidence x) \<and> known_entity s ns x) xs)"

text \<open>The segments that the ingestion of a file builds for a resource identifier, the
  namespace of the resource, the namespace of the call and a source URI, read off
  \<open>ingest_pdf\<close>, \<open>ingest_markdown\<close> and \<open>ingest_text\<close>; a return without segments is
  the empty list.  The source type of a file is its lower-case suffix without the dot.\<close>

definition file_segments ::
  "Env \<Rightarrow> (nat \<Rightarrow> timestamp) \<Rightarrow> string \<Rightarrow> string \<Rightarrow> string \<Rightarrow> string \<Rightarrow> string \<Rightarrow>
   error + ResourceSegment list"
where
  "file_segments env clock file_path ir ir_ns ns uri =
     (let suffix = lower (path_suffix file_path); n = sentences_per_segment env in
      if suffix = ''.pdf'' then
        (let pages = pdf_extract env file_path in
         if pages = [] then Inr [] else segment_pages clock n pages ir ir_ns uri)
      else if suffix = ''.md'' then
        (case read_text env file_path of
           Inl e \<Rightarrow> Inl e
         | Inr text \<Rightarrow>
             if strip text = [] then Inr [] else segment_markdown clock n text ir ns uri)
      else if suffix = ''.txt'' then
        (case read_text env file_path of
           Inl e \<Rightarrow> Inl e
         | Inr text \<Rightarrow>
             if strip text = [] then Inr [] else segment_text clock n text ir ns uri)
      else Inl ValueError)"

definition source_type :: "string \<Rightarrow> string" where
  "source_type file_path = drop 1 (lower (path_suffix file_path))"

text \<open>A store in which a file is settled for a namespace with \<open>n\<close> segments: the resource
  is registered under the hash of the file, the file yields \<open>n\<close> segments, their
  identifiers are in the segment table, and the entity stage has nothing to create.\<close>

definition settled :: "Env \<Rightarrow> string \<Rightarrow> string \<Rightarrow> nat \<Rightarrow> KnowledgeStore \<Rightarrow> bool" where
  "settled env file_path ns n s =
     (case fs env file_path of
        None \<Rightarrow> False
      | Some content \<Rightarrow>
          (case get_ir_by_uri s ns (''file://'' @ file_path) of
             None \<Rightarrow> False
           | Some r \<Rightarrow>
               ir_content_hash r = generate_content_hash content \<and>
               (case file_segments env (\<lambda>_. 0) file_path (ir_id r) ns ns
                       (''file://'' @ file_path) of
                  Inl e \<Rightarrow> False
                | Inr segs \<Rightarrow>
                    length segs = n \<and>
                    list_all (\<lambda>seg. seg_id seg \<in> segment_ids s \<and>
                                    resolvable env ns s (seg_text seg)) segs)))"

section \<open>Example data\<close>

text \<open>Concrete records and stores on which the theorems below are evaluated.\<close>

definition brca_v1 :: Entity where
  "brca_v1 = \<lparr>ent_id = ''e-1'', ent_namespace = ''lab'', ent_type = ''gene'', ent_name = ''BRCA1'',
     ent_aliases = [''BRCC1''], ent_metadata = [(''source'', PStr ''curated'')],
     ent_created_at = 10, ent_updated_at = 10\<rparr>"

definition brca_v2 :: Entity where
  "brca_v2 = \<lparr>ent_id = ''e-2'', ent_namespace = ''lab'', ent_type = ''gene'', ent_name = ''BRCA1'',
     ent_aliases = [''RNF53''], ent_metadata = [],
     ent_created_at = 20, ent_updated_at = 20\<rparr>"

definition recall_ir :: InformationResource where
  "recall_ir = \<lparr>ir_id = ''ir-1'', ir_namespace = ''lab'', ir_source_type = ''txt'',
     ir_source_uri = ''file:///notes.txt'', ir_content_hash = ''c0'', ir_metadata = [],
     ir_created_at = 1, ir_updated_at = 1\<rparr>"

definition recall_seg_a :: ResourceSegment where
  "recall_seg_a = \<lparr>seg_id = ''s-a'', seg_ir_id = ''ir-1'', seg_segment_index = 0,
     seg_text = ''The CCNA001 strain was isolated.'', seg_provenance = [(''sentence'', PInt 0)],
     seg_text_hash = ''ta'', seg_created_at = 20\<rparr>"

definition recall_seg_b :: ResourceSegment where
  "recall_seg_b = \<lparr>seg_id = ''s-b'', seg_ir_id = ''ir-1'', seg_segment_index = 1,
     seg_text = ''CCNA001 showed resistance.'', seg_provenance = [(''sentence'', PInt 1)],
     seg_text_hash = ''tb'', seg_created_at = 10\<rparr>"

definition recall_store :: KnowledgeStore where
  "recall_store =
     \<lparr>information_resources = [recall_ir],
      resource_segments = [recall_seg_a, recall_seg_b],
      entities = [],
      segment_entity_links =
        [\<lparr>link_segment_id = ''s-a'', link_entity_id = ''e-1'', link_type = ''mentions'',
          link_confidence = Finite (4 / 5), link_created_at = 21\<rparr>,
         \<lparr>link_segment_id = ''s-a'', link_entity_id = ''e-2'', link_type = ''mentions'',
          link_confidence = Finite 1, link_created_at = 21\<rparr>,
         \<lparr>link_segment_id = ''s-b'', link_entity_id = ''e-1'', link_type = ''mentions'',
          link_confidence = Finite (9 / 10), link_created_at = 11\<rparr>],
      embeddings = []\<rparr>"






definition iso_ir_a :: InformationResource where
  "iso_ir_a = \<lparr>ir_id = ''ir-a'', ir_namespace = ''lab_a'', ir_source_type = ''txt'',
     ir_source_uri = ''file:///notes.txt'', ir_content_hash = ''c0'', ir_metadata = [],
     ir_created_at = 1, ir_updated_at = 1\<rparr>"

definition iso_ir_b :: InformationResource where
  "iso_ir_b = \<lparr>ir_id = ''ir-b'', ir_namespace = ''lab_b'', ir_source_type = ''txt'',
     ir_source_uri = ''file:///notes.txt'', ir_content_hash = ''c0'', ir_metadata = [],
     ir_created_at = 2, ir_updated_at = 2\<rparr>"

definition iso_seg_a :: ResourceSegment where
  "iso_seg_a = \<lparr>seg_id = ''s-a'', seg_ir_id = ''ir-a'', seg_segment_index = 0,
     seg_text = ''The BRCA1 gene was sequenced.'', seg_provenance = [(''sentence'', PInt 0)],
     seg_text_hash = ''t0'', seg_created_at = 3\<rparr>"

definition iso_seg_b :: ResourceSegment where
  "iso_seg_b = \<lparr>seg_id = ''s-b'', seg_ir_id = ''ir-b'', seg_segment_index = 0,
     seg_text = ''The BRCA1 gene was sequenced.'', seg_provenance = [(''sentence'', PInt 0)],
     seg_text_hash = ''t0'', seg_created_at = 4\<rparr>"

definition iso_ent_a :: Entity where
  "iso_ent_a = \<lparr>ent_id = ''e-a'', ent_namespace = ''lab_a'', ent_type = ''gene'',
     ent_name = ''BRCA1'', ent_aliases = [], ent_metadata = [], ent_created_at = 5,
     ent_updated_at = 5\<rparr>"

definition iso_ent_b :: Entity where
  "iso_ent_b = \<lparr>ent_id = ''e-b'', ent_namespace = ''lab_b'', ent_type = ''gene'',
     ent_name = ''BRCA1'', ent_aliases = [], ent_metadata = [], ent_created_at = 6,
     ent_updated_at = 6\<rparr>"

definition iso_store :: KnowledgeStore where
  "iso_store =
     \<lparr>information_resources = [iso_ir_a, iso_ir_b],
      resource_segments = [iso_seg_a, iso_seg_b],
      entities = [iso_ent_a, iso_ent_b],
      segment_entity_links = [],
      embeddings =
        [\<lparr>emb_segment_id = ''s-a'', emb_model = ''m'', emb_vector = [1, 0], emb_created_at = 7\<rparr>,
         \<lparr>emb_segment_id = ''s-b'', emb_model = ''m'', emb_vector = [1, 0], emb_created_at = 8\<rparr>]\<rparr>"

text \<open>The part of that store that namespace \<open>lab_a\<close> wrote.\<close>

definition iso_store_a :: KnowledgeStore where
  "iso_store_a =
     \<lparr>information_resources = [iso_ir_a], resource_segments = [iso_seg_a],
      entities = [iso_ent_a], segment_entity_links = [], embeddings = []\<rparr>"

definition pipeline_file :: string where
  "pipeline_file = ''/docs/brca.txt''"

definition pipeline_text :: string where
  "pipeline_text = ''BRCA1 is linked to breast cancer.''"

definition pipeline_bytes :: "byte list" where
  "pipeline_bytes = encode_utf8 pipeline_text"

definition pipeline_env :: Env where
  "pipeline_env =
     \<lparr>fs = (\<lambda>p. if p = pipeline_file then Some pipeline_bytes else None),
      decode_text = (\<lambda>b. if b = pipeline_bytes then Some pipeline_text else None),
      pdf_extract = (\<lambda>p. []),
      entity_extract =
        (\<lambda>text. Inr [\<lparr>ext_type = ''gene'', ext_name = ''BRCA1'', ext_aliases = [],
                        ext_confidence = Finite 1, ext_metadata = []\<rparr>]),
      encode = map (\<lambda>text. [1, 0]),
      utcnow = int,
      uuid4 = (\<lambda>k. ''uuid-'' @ str_nat k),
      default_namespace = ''lab'',
      embedding_model_name = ''model'',
      sentences_per_segment = 3\<rparr>"

definition pipeline_ir :: InformationResource where
  "pipeline_ir =
     \<lparr>ir_id = ''uuid-0'', ir_namespace = ''lab'', ir_source_type = ''txt'',
      ir_source_uri = ''file:///docs/brca.txt'',
      ir_content_hash = generate_content_hash pipeline_bytes, ir_metadata = [],
      ir_created_at = 1, ir_updated_at = 2\<rparr>"

definition pipeline_segment :: ResourceSegment where
  "pipeline_segment =
     text_segment 4 ''uuid-0'' ''lab'' ''file:///docs/brca.txt'' 0 [pipeline_text] pipeline_text 0"

definition pipeline_entity :: Entity where
  "pipeline_entity =
     \<lparr>ent_id = ''uuid-5'', ent_namespace = ''lab'', ent_type = ''gene'', ent_name = ''BRCA1'',
      ent_aliases = [], ent_metadata = [], ent_created_at = 6, ent_updated_at = 7\<rparr>"

definition pipeline_link :: "timestamp \<Rightarrow> EntityLink" where
  "pipeline_link created =
     \<lparr>link_segment_id = seg_id pipeline_segment, link_entity_id = ''uuid-5'',
      link_type = ''mentions'', link_confidence = Finite 1, link_created_at = created\<rparr>"

definition ingested_store :: KnowledgeStore where
  "ingested_store =
     \<lparr>information_resources = [pipeline_ir], resource_segments = [pipeline_segment],
      entities = [pipeline_entity], segment_entity_links = [pipeline_link 9],
      embeddings = []\<rparr>"

definition embedded_store :: KnowledgeStore where
  "embedded_store =
     ingested_store
       \<lparr>embeddings := [\<lparr>emb_segment_id = seg_id pipeline_segment, emb_model = ''model'',
                         emb_vector = [1, 0], emb_created_at = 10\<rparr>]\<rparr>"

definition registered_store :: KnowledgeStore where
  "registered_store = empty_store\<lparr>information_resources := [pipeline_ir]\<rparr>"

section \<open>Verification: stable identifiers\<close>

lemma isspace_space [simp]: "isspace CHR '' ''"
  by (simp add: isspace_def)

lemma join_Cons: "join sep (x # xs) = (if xs = [] then x else x @ sep @ join sep xs)"
  by (cases xs) simp_all

lemma split_scan_dropWhile: "split_scan [] (dropWhile isspace s) = split_scan [] s"
  by (induction s) simp_all

lemma split_scan_trailing:
  "\<forall>c \<in> set t. isspace c \<Longrightarrow> split_scan w (s @ t) = split_scan w s"
proof (induction s arbitrary: w)
  case Nil
  then show ?case by (induction t arbitrary: w) auto
next
  case (Cons c s)
  then show ?case by simp
qed

lemma strip_decomp:
  "dropWhile isspace s = strip s @ rev (takeWhile isspace (rev (dropWhile isspace s)))"
proof -
  let ?u = "rev (dropWhile isspace s)"
  have "rev (takeWhile isspace ?u @ dropWhile isspace ?u) = rev ?u"
    by (simp only: takeWhile_dropWhile_id)
  then have "rev (dropWhile isspace ?u) @ rev (takeWhile isspace ?u) = rev ?u"
    by (simp only: rev_append)
  then show ?thesis
    by (simp add: strip_def)
qed

lemma split_ws_strip: "split_ws (strip s) = split_ws s"
proof -
  let ?t = "rev (takeWhile isspace (rev (dropWhile isspace s)))"
  have t: "\<forall>c \<in> set ?t. isspace c"
    by (auto dest: set_takeWhileD)
  have "split_scan [] s = split_scan [] (dropWhile isspace s)"
    by (simp add: split_scan_dropWhile)
  also have "\<dots> = split_scan [] (strip s @ ?t)"
    using strip_decomp [of s] by simp
  also have "\<dots> = split_scan [] (strip s)"
    using t by (rule split_scan_trailing)
  finally show ?thesis by (simp add: split_ws_def)
qed

lemma split_scan_nonempty:
  "w \<noteq> [] \<or> (\<exists>c \<in> set s. \<not> isspace c) \<Longrightarrow> split_scan w s \<noteq> []"
  by (induction w s rule: split_scan.induct) auto

lemma join_split_scan:
  "s = [] \<or> \<not> isspace (last s) \<Longrightarrow>
   join '' '' (split_scan w s) =
     (if w = [] then collapse_ws (dropWhile isspace s) else w @ collapse_ws s)"
proof (induction w s rule: split_scan.induct)
  case (1 w)
  then show ?case by simp
next
  case (2 w c cs)
  have tail: "cs = [] \<or> \<not> isspace (last cs)"
    using 2(4) by (auto split: if_splits)
  show ?case
  proof (cases "isspace c")
    case True
    then have "cs \<noteq> []" "\<not> isspace (last cs)"
      using 2(4) by (auto split: if_splits)
    then have ne: "split_scan [] cs \<noteq> []"
      by (intro split_scan_nonempty) (metis last_in_set)
    show ?thesis
    proof (cases "w = []")
      case True
      with \<open>isspace c\<close> 2(1) tail show ?thesis by simp
    next
      case False
      with \<open>isspace c\<close> 2(2) tail ne show ?thesis by (simp add: join_Cons)
    qed
  next
    case False
    with 2(3) tail show ?thesis by simp
  qed
qed

lemma strip_last: "strip s = [] \<or> \<not> isspace (last (strip s))"
proof (rule disjCI)
  let ?u = "dropWhile isspace (rev (dropWhile isspace s))"
  assume "\<not> \<not> isspace (last (strip s))"
  then have sp: "isspace (last (rev ?u))"
    by (simp add: strip_def)
  show "strip s = []"
  proof (rule ccontr)
    assume "strip s \<noteq> []"
    then have ne: "?u \<noteq> []"
      by (simp add: strip_def)
    with sp have "isspace (hd ?u)"
      by (simp add: last_rev)
    with ne show False
      using hd_dropWhile [of isspace "rev (dropWhile isspace s)"] by simp
  qed
qed

lemma strip_no_leading: "dropWhile isspace (strip s) = strip s"
proof (cases "strip s")
  case Nil
  then show ?thesis by simp
next
  case (Cons c cs)
  have "dropWhile isspace s = (c # cs) @ rev (takeWhile isspace (rev (dropWhile isspace s)))"
    using strip_decomp [of s] Cons by simp
  then have "hd (dropWhile isspace s) = c" "dropWhile isspace s \<noteq> []"
    by (metis append_Cons list.sel(1), metis append_Cons list.distinct(1))
  then have "\<not> isspace c"
    using hd_dropWhile by blast
  with Cons show ?thesis by simp
qed

lemma normalize_text_spec: "normalize_text t = normalize_spec t"
  using join_split_scan [OF strip_last, of "[]" t]
  by (simp add: normalize_text_def normalize_spec_def split_ws_def strip_no_leading)

text \<open>
  Claim C3.  For all inputs, the identifier that \<open>generate_segment_id\<close> computes is the
  hex-encoded SHA-256 of the UTF-8 bytes of the pipe-joined string
  \<open>namespace|source_uri|provenance_key|normalize(text)\<close>, where \<open>normalize\<close> is the
  specification's whitespace normalisation.  The right-hand side mentions nothing but
  the four inputs, so equal inputs give equal identifiers on every call.
\<close>

theorem generate_segment_id_is_sha256_of_pipe_join:
  "generate_segment_id namespace source_uri provenance_key text =
     segment_id_spec namespace source_uri provenance_key text"
  by (simp add: generate_segment_id_def segment_id_spec_def normalize_text_spec)

lemma split_scan_words:
  "list_all (\<lambda>c. \<not> isspace c) w \<Longrightarrow> list_all word_ok (split_scan w s)"
  by (induction w s rule: split_scan.induct) (auto simp: word_ok_def)

lemma split_scan_word:
  "list_all (\<lambda>c. \<not> isspace c) x \<Longrightarrow> split_scan w (x @ s) = split_scan (w @ x) s"
  by (induction x arbitrary: w) auto

lemma split_scan_join:
  "list_all word_ok ws \<Longrightarrow> split_scan [] (join '' '' ws) = ws"
proof (induction ws rule: induct_list012)
  case 1
  then show ?case by simp
next
  case (2 x)
  then show ?case
    using split_scan_word [of x "[]" "[]"] by (simp add: word_ok_def)
next
  case (3 x y ys)
  then show ?case
    using split_scan_word [of x "[]" "'' '' @ join '' '' (y # ys)"]
    by (simp add: word_ok_def)
qed

lemma normalize_text_idem: "normalize_text (normalize_text t) = normalize_text t"
proof -
  have "list_all word_ok (split_ws (strip t))"
    unfolding split_ws_def by (rule split_scan_words) simp
  then have "split_ws (join '' '' (split_ws (strip t))) = split_ws (strip t)"
    unfolding split_ws_def by (rule split_scan_join)
  then show ?thesis
    by (simp add: normalize_text_def split_ws_strip)
qed

text \<open>
  Claim C10.  Normalisation is idempotent, and the two hashes see a text only through
  its normalised form: two texts with the same normalised form have the same text hash
  and, under the same namespace, source URI and provenance key, the same segment
  identifier.
\<close>

theorem normalize_idempotent_hashes_whitespace_insensitive:
  "normalize_text (normalize_text t) = normalize_text t \<and>
   (normalize_text a = normalize_text b \<longrightarrow>
      generate_text_hash a = generate_text_hash b \<and>
      generate_segment_id ns uri pk a = generate_segment_id ns uri pk b)"
  by (simp add: normalize_text_idem generate_text_hash_def generate_segment_id_def)

theorem normalize_idempotent_hashes_witness:
  "normalize_text (normalize_text ''  two   words '') = normalize_text ''  two   words '' \<and>
   normalize_text ''two   words'' = normalize_text '' two words  '' \<and>
   normalize_text ''two   words'' = ''two words'' \<and>
   generate_text_hash ''two   words'' = generate_text_hash '' two words  '' \<and>
   generate_segment_id ''lab'' ''file:///d.txt'' ''0'' ''two   words'' =
     generate_segment_id ''lab'' ''file:///d.txt'' ''0'' '' two words  ''"
proof -
  have l: "normalize_text ''two   words'' = ''two words''"
    by (simp add: normalize_text_def strip_def split_ws_def isspace_def)
  have r: "normalize_text '' two words  '' = ''two words''"
    by (simp add: normalize_text_def strip_def split_ws_def isspace_def)
  from l r have h: "normalize_text ''two   words'' = normalize_text '' two words  ''"
    by simp
  show ?thesis
    using normalize_idempotent_hashes_whitespace_insensitive
      [of "''  two   words ''" "''two   words''" "'' two words  ''" "''lab''"
          "''file:///d.txt''" "''0''"] h l
    by blast
qed

section \<open>Verification: segment ordering\<close>

lemma page_segment_index [simp]:
  "seg_segment_index (page_segment now ir ns uri pnum i batch txt g) = g"
  by (simp add: page_segment_def ResourceSegment_init_def Let_def)

lemma paragraph_segment_index [simp]:
  "seg_segment_index (paragraph_segment now h p ir ns uri i batch txt g) = g"
  by (simp add: paragraph_segment_def ResourceSegment_init_def Let_def)

lemma text_segment_index [simp]:
  "seg_segment_index (text_segment now ir ns uri i batch txt g) = g"
  by (simp add: text_segment_def ResourceSegment_init_def Let_def)

















lemmas seg_eval =
  split_sentences_def strip_def isspace_def sentence_end_def boundary_def is_upper_AZ_def
  range_batches_def Let_def





section \<open>Verification: confidence validation\<close>

lemma py_lt_not_le: "py_lt a b \<Longrightarrow> \<not> py_le b a"
  by (cases a; cases b) simp_all

lemma confidence_ok_outside:
  "py_lt c (Finite 0) \<or> py_lt (Finite 1) c \<Longrightarrow> \<not> confidence_ok c"
  by (auto simp: confidence_ok_def dest: py_lt_not_le)

text \<open>
  Claim C9.  Constructing an \<open>EntityLink\<close> or an \<open>ExtractedEntity\<close> with a confidence
  strictly below 0.0 or strictly above 1.0 (the infinities included) fails with
  \<open>ValueError\<close>; with a confidence in the closed interval from 0.0 to 1.0 both
  constructors return the record, carrying that confidence.
\<close>

theorem confidence_bound_validation:
  "(py_lt c (Finite 0) \<or> py_lt (Finite 1) c \<longrightarrow>
      EntityLink_init now sid eid ltype c created = Inl ValueError \<and>
      ExtractedEntity_init etype name aliases c metadata = Inl ValueError) \<and>
   (py_le (Finite 0) c \<and> py_le c (Finite 1) \<longrightarrow>
      (\<exists>l. EntityLink_init now sid eid ltype c created = Inr l \<and> link_confidence l = c) \<and>
      (\<exists>e. ExtractedEntity_init etype name aliases c metadata = Inr e \<and> ext_confidence e = c))"
proof (intro conjI impI)
  assume "py_lt c (Finite 0) \<or> py_lt (Finite 1) c"
  then have bad: "\<not> confidence_ok c"
    by (rule confidence_ok_outside)
  then show "EntityLink_init now sid eid ltype c created = Inl ValueError"
    by (simp add: EntityLink_init_def)
  from bad show "ExtractedEntity_init etype name aliases c metadata = Inl ValueError"
    by (simp add: ExtractedEntity_init_def)
next
  assume "py_le (Finite 0) c \<and> py_le c (Finite 1)"
  then have ok: "confidence_ok c"
    by (simp add: confidence_ok_def)
  then show "\<exists>l. EntityLink_init now sid eid ltype c created = Inr l \<and> link_confidence l = c"
    by (simp add: EntityLink_init_def)
  from ok show "\<exists>e. ExtractedEntity_init etype name aliases c metadata = Inr e \<and> ext_confidence e = c"
    by (simp add: ExtractedEntity_init_def)
qed

theorem confidence_bound_validation_witness:
  "py_lt (Finite (- 1 / 10)) (Finite 0) \<and>
   EntityLink_init 7 ''seg'' ''ent'' ''mentions'' (Finite (- 1 / 10)) None = Inl ValueError \<and>
   ExtractedEntity_init ''gene'' ''BRCA1'' [] (Finite (- 1 / 10)) [] = Inl ValueError \<and>
   py_lt (Finite 1) PosInf \<and>
   EntityLink_init 7 ''seg'' ''ent'' ''mentions'' PosInf None = Inl ValueError \<and>
   ExtractedEntity_init ''gene'' ''BRCA1'' [] PosInf [] = Inl ValueError \<and>
   py_le (Finite 0) (Finite 1) \<and> py_le (Finite 1) (Finite 1) \<and>
   EntityLink_init 7 ''seg'' ''ent'' ''mentions'' (Finite 1) None =
     Inr \<lparr>link_segment_id = ''seg'', link_entity_id = ''ent'', link_type = ''mentions'',
          link_confidence = Finite 1, link_created_at = 7\<rparr> \<and>
   (\<exists>e. ExtractedEntity_init ''gene'' ''BRCA1'' [] (Finite 1) [] = Inr e \<and>
        ext_confidence e = Finite 1)"
proof -
  have a: "py_lt (Finite (- 1 / 10)) (Finite 0)" by simp
  have b: "py_lt (Finite 1) PosInf" by simp
  have c: "py_le (Finite 0) (Finite 1) \<and> py_le (Finite 1) (Finite 1)" by simp
  note main = confidence_bound_validation
  from a main [of "Finite (- 1 / 10)" 7 "''seg''" "''ent''" "''mentions''" None "''gene''" "''BRCA1''" "[]" "[]"]
  have 1: "EntityLink_init 7 ''seg'' ''ent'' ''mentions'' (Finite (- 1 / 10)) None = Inl ValueError \<and>
      ExtractedEntity_init ''gene'' ''BRCA1'' [] (Finite (- 1 / 10)) [] = Inl ValueError"
    by blast
  from b main [of PosInf 7 "''seg''" "''ent''" "''mentions''" None "''gene''" "''BRCA1''" "[]" "[]"]
  have 2: "EntityLink_init 7 ''seg'' ''ent'' ''mentions'' PosInf None = Inl ValueError \<and>
      ExtractedEntity_init ''gene'' ''BRCA1'' [] PosInf [] = Inl ValueError"
    by blast
  from c main [of "Finite 1" 7 "''seg''" "''ent''" "''mentions''" None "''gene''" "''BRCA1''" "[]" "[]"]
  have 3: "(\<exists>l. EntityLink_init 7 ''seg'' ''ent'' ''mentions'' (Finite 1) None = Inr l \<and> link_confidence l = Finite 1) \<and>
      (\<exists>e. ExtractedEntity_init ''gene'' ''BRCA1'' [] (Finite 1) [] = Inr e \<and> ext_confidence e = Finite 1)"
    by blast
  have 4: "EntityLink_init 7 ''seg'' ''ent'' ''mentions'' (Finite 1) None =
     Inr \<lparr>link_segment_id = ''seg'', link_entity_id = ''ent'', link_type = ''mentions'',
          link_confidence = Finite 1, link_created_at = 7\<rparr>"
    by (simp add: EntityLink_init_def confidence_ok_def)
  from a b c 1 2 3 4 show ?thesis by blast
qed
section \<open>Verification: entity upsert\<close>

lemma find_map_update:
  assumes "find P xs = Some x" and "\<And>y. P (f y) = P y"
  shows "find P (map f xs) = Some (f x)"
  using assms by (induction xs) (auto split: if_splits)

lemma find_Some_P: "find P xs = Some x \<Longrightarrow> P x \<and> x \<in> set xs"
  by (induction xs) (auto split: if_splits)

text \<open>
  Claim C7, as amended.  When the store already has an entity with the namespace, type
  and name of the incoming one, \<open>upsert_entity\<close> adds no row, keeps the stored
  identifier and creation time, sets \<open>updated_at\<close> to the current time and replaces the
  stored aliases and metadata by the incoming ones; the entity it returns carries the
  stored identifier and creation time.  When there is no such entity and the incoming
  identifier is unused, it appends the entity as a new row.
\<close>

theorem upsert_entity_replaces_or_inserts:
  "(get_entity_by_name s (ent_namespace e) (ent_type e) (ent_name e) = Some existing \<longrightarrow>
      (\<exists>s'. upsert_entity s now e =
               Inr (e\<lparr>ent_updated_at := now, ent_id := ent_id existing,
                      ent_created_at := ent_created_at existing\<rparr>, s') \<and>
            length (entities s') = length (entities s) \<and>
            get_entity_by_name s' (ent_namespace e) (ent_type e) (ent_name e) =
              Some (existing\<lparr>ent_aliases := ent_aliases e, ent_metadata := ent_metadata e,
                             ent_updated_at := now\<rparr>))) \<and>
   (get_entity_by_name s (ent_namespace e) (ent_type e) (ent_name e) = None \<and>
    \<not> list_ex (\<lambda>r. ent_id r = ent_id e) (entities s) \<longrightarrow>
      upsert_entity s now e = Inr (e, s\<lparr>entities := entities s @ [e]\<rparr>))"
proof (intro conjI impI)
  let ?key = "\<lambda>r. ent_namespace r = ent_namespace e \<and> ent_type r = ent_type e \<and> ent_name r = ent_name e"
  let ?upd = "\<lambda>r. if ent_id r = ent_id existing
                   then r\<lparr>ent_aliases := ent_aliases e, ent_metadata := ent_metadata e,
                          ent_updated_at := now\<rparr>
                   else r"
  assume ex: "get_entity_by_name s (ent_namespace e) (ent_type e) (ent_name e) = Some existing"
  then have f: "find ?key (entities s) = Some existing"
    by (simp add: get_entity_by_name_def)
  have "find ?key (map ?upd (entities s)) = Some (?upd existing)"
    using f by (rule find_map_update) simp
  then have look: "get_entity_by_name (s\<lparr>entities := map ?upd (entities s)\<rparr>)
      (ent_namespace e) (ent_type e) (ent_name e) =
      Some (existing\<lparr>ent_aliases := ent_aliases e, ent_metadata := ent_metadata e,
                     ent_updated_at := now\<rparr>)"
    by (simp add: get_entity_by_name_def)
  have res: "upsert_entity s now e =
      Inr (e\<lparr>ent_updated_at := now, ent_id := ent_id existing,
             ent_created_at := ent_created_at existing\<rparr>, s\<lparr>entities := map ?upd (entities s)\<rparr>)"
    using ex by (simp add: upsert_entity_def Let_def)
  show "\<exists>s'. upsert_entity s now e =
               Inr (e\<lparr>ent_updated_at := now, ent_id := ent_id existing,
                      ent_created_at := ent_created_at existing\<rparr>, s') \<and>
            length (entities s') = length (entities s) \<and>
            get_entity_by_name s' (ent_namespace e) (ent_type e) (ent_name e) =
              Some (existing\<lparr>ent_aliases := ent_aliases e, ent_metadata := ent_metadata e,
                             ent_updated_at := now\<rparr>)"
    using res look by (intro exI [of _ "s\<lparr>entities := map ?upd (entities s)\<rparr>"]) simp
next
  assume a: "get_entity_by_name s (ent_namespace e) (ent_type e) (ent_name e) = None \<and>
    \<not> list_ex (\<lambda>r. ent_id r = ent_id e) (entities s)"
  then have "\<not> list_ex (\<lambda>r. ent_id r = ent_id e \<or>
                      (ent_namespace r = ent_namespace e \<and> ent_type r = ent_type e \<and>
                       ent_name r = ent_name e)) (entities s)"
    by (auto simp: get_entity_by_name_def list_ex_iff find_None_iff)
  with a show "upsert_entity s now e = Inr (e, s\<lparr>entities := entities s @ [e]\<rparr>)"
    by (simp add: upsert_entity_def insert_entity_def)
qed

lemma brca_lookup:
  "get_entity_by_name (empty_store\<lparr>entities := [brca_v1]\<rparr>) ''lab'' ''gene'' ''BRCA1'' = Some brca_v1"
  by (simp add: get_entity_by_name_def empty_store_def brca_v1_def)

theorem upsert_entity_merge_counterexample:
  "upsert_entity (empty_store\<lparr>entities := [brca_v1]\<rparr>) 30 brca_v2 =
     Inr (brca_v2\<lparr>ent_updated_at := 30, ent_id := ''e-1'', ent_created_at := 10\<rparr>,
          empty_store\<lparr>entities :=
            [brca_v1\<lparr>ent_aliases := [''RNF53''], ent_metadata := [], ent_updated_at := 30\<rparr>]\<rparr>) \<and>
   ent_aliases brca_v1 = [''BRCC1''] \<and>
   ''BRCC1'' \<notin> set (ent_aliases (brca_v1\<lparr>ent_aliases := [''RNF53''], ent_metadata := [],
                                        ent_updated_at := 30\<rparr>)) \<and>
   ent_metadata brca_v1 = [(''source'', PStr ''curated'')] \<and>
   ent_metadata (brca_v1\<lparr>ent_aliases := [''RNF53''], ent_metadata := [], ent_updated_at := 30\<rparr>) = []"
  by (simp add: upsert_entity_def get_entity_by_name_def empty_store_def brca_v1_def brca_v2_def)

theorem upsert_entity_replaces_or_inserts_witness:
  "get_entity_by_name (empty_store\<lparr>entities := [brca_v1]\<rparr>) ''lab'' ''gene'' ''BRCA1'' = Some brca_v1 \<and>
   (\<exists>s'. upsert_entity (empty_store\<lparr>entities := [brca_v1]\<rparr>) 30 brca_v2 =
            Inr (brca_v2\<lparr>ent_updated_at := 30, ent_id := ''e-1'', ent_created_at := 10\<rparr>, s') \<and>
          length (entities s') = 1 \<and>
          get_entity_by_name s' ''lab'' ''gene'' ''BRCA1'' =
            Some (brca_v1\<lparr>ent_aliases := [''RNF53''], ent_metadata := [], ent_updated_at := 30\<rparr>)) \<and>
   get_entity_by_name empty_store ''lab'' ''gene'' ''BRCA1'' = None \<and>
   \<not> list_ex (\<lambda>r. ent_id r = ''e-1'') (entities empty_store) \<and>
   upsert_entity empty_store 30 brca_v1 = Inr (brca_v1, empty_store\<lparr>entities := [brca_v1]\<rparr>)"
proof -
  note main = upsert_entity_replaces_or_inserts
  have k: "ent_namespace brca_v2 = ''lab''" "ent_type brca_v2 = ''gene''" "ent_name brca_v2 = ''BRCA1''"
    "ent_namespace brca_v1 = ''lab''" "ent_type brca_v1 = ''gene''" "ent_name brca_v1 = ''BRCA1''"
    "ent_id brca_v1 = ''e-1''" "ent_created_at brca_v1 = 10"
    "ent_aliases brca_v2 = [''RNF53'']" "ent_metadata brca_v2 = []"
    by (simp_all add: brca_v1_def brca_v2_def)
  have none: "get_entity_by_name empty_store ''lab'' ''gene'' ''BRCA1'' = None"
    "\<not> list_ex (\<lambda>r. ent_id r = ''e-1'') (entities empty_store)"
    by (simp_all add: get_entity_by_name_def empty_store_def)
  have 1: "\<exists>s'. upsert_entity (empty_store\<lparr>entities := [brca_v1]\<rparr>) 30 brca_v2 =
            Inr (brca_v2\<lparr>ent_updated_at := 30, ent_id := ''e-1'', ent_created_at := 10\<rparr>, s') \<and>
          length (entities s') = 1 \<and>
          get_entity_by_name s' ''lab'' ''gene'' ''BRCA1'' =
            Some (brca_v1\<lparr>ent_aliases := [''RNF53''], ent_metadata := [], ent_updated_at := 30\<rparr>)"
    using main [of "empty_store\<lparr>entities := [brca_v1]\<rparr>" brca_v2 brca_v1 30, THEN conjunct1]
      brca_lookup
    by (simp add: k)
  have 2: "upsert_entity empty_store 30 brca_v1 = Inr (brca_v1, empty_store\<lparr>entities := [brca_v1]\<rparr>)"
    using main [of empty_store brca_v1 _ 30, THEN conjunct2] none
    by (simp add: k empty_store_def)
  from brca_lookup 1 none 2 show ?thesis by blast
qed
section \<open>Verification: exact recall\<close>

lemma collect_map_Inr:
  "(\<And>x. x \<in> set xs \<Longrightarrow> f x = Inr (g x)) \<Longrightarrow> collect (map f xs) = Inr (map g xs)"
  by (induction xs) simp_all

lemma join_rows_filter:
  "[(rs, sel). rs \<leftarrow> segs, sel \<leftarrow> links, seg_id rs = link_segment_id sel, link_entity_id sel = e] =
   filter (linked_to e) (List.product segs links)"
proof (induction segs)
  case Nil
  then show ?case by simp
next
  case (Cons rs segs)
  have "concat (map (\<lambda>sel. if seg_id rs = link_segment_id sel
                              then if link_entity_id sel = e then [(rs, sel)] else [] else []) links) =
        filter (linked_to e) (map (Pair rs) links)"
    by (induction links) (simp_all add: linked_to_def)
  with Cons show ?case by simp
qed

lemma segment_link_rows_alt:
  "segment_link_rows s e =
   sort_key (\<lambda>(rs, sel). seg_created_at rs)
     (filter (linked_to e) (List.product (resource_segments s) (segment_entity_links s)))"
  by (simp add: segment_link_rows_def join_rows_filter)

lemma segment_link_rows_mem:
  "(rs, sel) \<in> set (segment_link_rows s e) \<Longrightarrow>
   sel \<in> set (segment_entity_links s) \<and> seg_id rs = link_segment_id sel \<and> link_entity_id sel = e"
  by (auto simp: segment_link_rows_alt linked_to_def)

lemma rebuild_link:
  assumes "confidence_ok (link_confidence sel)"
    and "seg_id rs = link_segment_id sel" and "link_entity_id sel = e"
  shows "EntityLink_init now (seg_id rs) e (link_type sel) (link_confidence sel)
           (Some (link_created_at sel)) = Inr sel"
  using assms by (cases sel) (simp add: EntityLink_init_def)

lemma get_segments_for_entity_rows:
  assumes "links_valid s"
  shows "get_segments_for_entity s e = Inr (segment_link_rows s e)"
proof -
  have "collect (map (\<lambda>(rs, sel).
               case EntityLink_init (link_created_at sel) (seg_id rs) e (link_type sel)
                      (link_confidence sel) (Some (link_created_at sel)) of
                 Inl err \<Rightarrow> Inl err
               | Inr link \<Rightarrow> Inr (rs, link)) (segment_link_rows s e)) =
        Inr (map (\<lambda>p. p) (segment_link_rows s e))"
  proof (rule collect_map_Inr)
    fix x assume x: "x \<in> set (segment_link_rows s e)"
    obtain rs sel where p: "x = (rs, sel)" by (cases x)
    from x p have m: "sel \<in> set (segment_entity_links s)" "seg_id rs = link_segment_id sel"
      "link_entity_id sel = e"
      using segment_link_rows_mem by blast+
    from m(1) assms have "confidence_ok (link_confidence sel)"
      by (simp add: links_valid_def list_all_iff)
    from rebuild_link [OF this m(2) m(3)] p
    show "(case x of (rs, sel) \<Rightarrow>
             case EntityLink_init (link_created_at sel) (seg_id rs) e (link_type sel)
                    (link_confidence sel) (Some (link_created_at sel)) of
               Inl err \<Rightarrow> Inl err
             | Inr link \<Rightarrow> Inr (rs, link)) = Inr x"
      by simp
  qed
  then show ?thesis by (simp add: get_segments_for_entity_def)
qed

text \<open>
  Claim C2.  In a store whose links carry valid confidences (every link that
  \<open>add_entity_link\<close> receives was built by the validating constructor), the exact-recall
  query for an entity returns one result for each pair of a segment row and a link row
  that agree on the segment identifier and whose link points at the entity: the
  multiset of pairs behind the results is exactly the multiset of those pairs, so none
  is left out and none is repeated.  The pairs are in ascending order of the segment's
  creation time, and each result carries the segment's identifier, text and provenance,
  the link's type and confidence, and the source URI and namespace of the resource that
  owns the segment.
\<close>

theorem exact_recall_complete_and_ordered:
  assumes "links_valid s"
  shows "\<exists>pairs.
     get_segments_for_entity s e = Inr pairs \<and>
     get_all_segments_for_entity s e = Inr (map (recall_result s) pairs) \<and>
     mset pairs =
       filter_mset (linked_to e)
         (mset (List.product (resource_segments s) (segment_entity_links s))) \<and>
     sorted (map (\<lambda>(rs, sel). seg_created_at rs) pairs) \<and>
     (\<forall>rs sel ir. (rs, sel) \<in> set pairs \<and> get_ir_by_id s (seg_ir_id rs) = Some ir \<longrightarrow>
        recall_result s (rs, sel) =
          \<lparr>rr_segment_id = seg_id rs, rr_text = seg_text rs, rr_provenance = seg_provenance rs,
           rr_source_uri = Some (ir_source_uri ir), rr_namespace = Some (ir_namespace ir),
           rr_link_type = link_type sel, rr_confidence = link_confidence sel\<rparr>)"
proof (intro exI conjI)
  show "get_segments_for_entity s e = Inr (segment_link_rows s e)"
    using assms by (rule get_segments_for_entity_rows)
  then show "get_all_segments_for_entity s e = Inr (map (recall_result s) (segment_link_rows s e))"
    by (simp add: get_all_segments_for_entity_def)
  show "mset (segment_link_rows s e) =
       filter_mset (linked_to e)
         (mset (List.product (resource_segments s) (segment_entity_links s)))"
    by (simp add: segment_link_rows_alt)
  show "sorted (map (\<lambda>(rs, sel). seg_created_at rs) (segment_link_rows s e))"
    by (simp add: segment_link_rows_def)
  show "\<forall>rs sel ir. (rs, sel) \<in> set (segment_link_rows s e) \<and>
          get_ir_by_id s (seg_ir_id rs) = Some ir \<longrightarrow>
        recall_result s (rs, sel) =
          \<lparr>rr_segment_id = seg_id rs, rr_text = seg_text rs, rr_provenance = seg_provenance rs,
           rr_source_uri = Some (ir_source_uri ir), rr_namespace = Some (ir_namespace ir),
           rr_link_type = link_type sel, rr_confidence = link_confidence sel\<rparr>"
    by (simp add: recall_result_def)
qed

lemma links_valid_empty: "links_valid empty_store"
  by (simp add: links_valid_def empty_store_def)

lemma links_valid_add_entity_link:
  assumes "links_valid s" and "EntityLink_init now sid eid ltype c created = Inr link"
  shows "links_valid (add_entity_link s link)"
proof -
  from assms(2) have "confidence_ok (link_confidence link)"
    by (auto simp: EntityLink_init_def Let_def split: if_splits)
  with assms(1) show ?thesis
    by (auto simp: links_valid_def add_entity_link_def list_all_iff)
qed

lemmas recall_defs = recall_store_def recall_ir_def recall_seg_a_def recall_seg_b_def

theorem exact_recall_complete_and_ordered_witness:
  "links_valid recall_store \<and>
   get_all_segments_for_entity recall_store ''e-1'' =
     Inr [\<lparr>rr_segment_id = ''s-b'', rr_text = ''CCNA001 showed resistance.'',
           rr_provenance = [(''sentence'', PInt 1)], rr_source_uri = Some ''file:///notes.txt'',
           rr_namespace = Some ''lab'', rr_link_type = ''mentions'',
           rr_confidence = Finite (9 / 10)\<rparr>,
          \<lparr>rr_segment_id = ''s-a'', rr_text = ''The CCNA001 strain was isolated.'',
           rr_provenance = [(''sentence'', PInt 0)], rr_source_uri = Some ''file:///notes.txt'',
           rr_namespace = Some ''lab'', rr_link_type = ''mentions'',
           rr_confidence = Finite (4 / 5)\<rparr>] \<and>
   (\<exists>pairs.
      get_segments_for_entity recall_store ''e-1'' = Inr pairs \<and>
      get_all_segments_for_entity recall_store ''e-1'' = Inr (map (recall_result recall_store) pairs) \<and>
      mset pairs =
        filter_mset (linked_to ''e-1'')
          (mset (List.product (resource_segments recall_store) (segment_entity_links recall_store))) \<and>
      sorted (map (\<lambda>(rs, sel). seg_created_at rs) pairs))"
proof -
  have v: "links_valid recall_store"
    by (simp add: links_valid_def recall_defs confidence_ok_def)
  have rows: "segment_link_rows recall_store ''e-1'' =
      [(recall_seg_b, \<lparr>link_segment_id = ''s-b'', link_entity_id = ''e-1'', link_type = ''mentions'',
          link_confidence = Finite (9 / 10), link_created_at = 11\<rparr>),
       (recall_seg_a, \<lparr>link_segment_id = ''s-a'', link_entity_id = ''e-1'', link_type = ''mentions'',
          link_confidence = Finite (4 / 5), link_created_at = 21\<rparr>)]"
    by (simp add: segment_link_rows_def recall_defs)
  from exact_recall_complete_and_ordered [OF v, of "''e-1''"] obtain pairs where
    p: "get_segments_for_entity recall_store ''e-1'' = Inr pairs"
      "get_all_segments_for_entity recall_store ''e-1'' = Inr (map (recall_result recall_store) pairs)"
      "mset pairs =
        filter_mset (linked_to ''e-1'')
          (mset (List.product (resource_segments recall_store) (segment_entity_links recall_store)))"
      "sorted (map (\<lambda>(rs, sel). seg_created_at rs) pairs)"
    by blast
  from p(1) have "pairs = segment_link_rows recall_store ''e-1''"
    using get_segments_for_entity_rows [OF v, of "''e-1''"] by simp
  with p(2) rows have res: "get_all_segments_for_entity recall_store ''e-1'' =
     Inr [\<lparr>rr_segment_id = ''s-b'', rr_text = ''CCNA001 showed resistance.'',
           rr_provenance = [(''sentence'', PInt 1)], rr_source_uri = Some ''file:///notes.txt'',
           rr_namespace = Some ''lab'', rr_link_type = ''mentions'',
           rr_confidence = Finite (9 / 10)\<rparr>,
          \<lparr>rr_segment_id = ''s-a'', rr_text = ''The CCNA001 strain was isolated.'',
           rr_provenance = [(''sentence'', PInt 0)], rr_source_uri = Some ''file:///notes.txt'',
           rr_namespace = Some ''lab'', rr_link_type = ''mentions'',
           rr_confidence = Finite (4 / 5)\<rparr>]"
    by (simp add: recall_result_def get_ir_by_id_def recall_defs)
  from v res p show ?thesis by blast
qed
section \<open>Verification: semantic-search scoring\<close>
















section \<open>Verification: namespace isolation\<close>

lemma concat_map_filter:
  "(\<And>x. x \<in> set xs \<Longrightarrow> \<not> P x \<Longrightarrow> f x = []) \<Longrightarrow> concat (map f (filter P xs)) = concat (map f xs)"
  by (induction xs) auto

lemma distinct_map_eq:
  "distinct (map f xs) \<Longrightarrow> x \<in> set xs \<Longrightarrow> y \<in> set xs \<Longrightarrow> f x = f y \<Longrightarrow> x = y"
  by (meson distinct_map inj_on_def)

lemma ir_join_without:
  assumes "a \<noteq> b"
  shows "concat (map (\<lambda>ir. if seg_ir_id rs = ir_id ir then if ir_namespace ir = b then [g ir] else [] else [])
           (filter (\<lambda>ir. ir_namespace ir \<noteq> a) irs)) =
         concat (map (\<lambda>ir. if seg_ir_id rs = ir_id ir then if ir_namespace ir = b then [g ir] else [] else []) irs)"
  using assms by (intro concat_map_filter) auto

lemma ir_join_owned_empty:
  assumes d: "distinct (map ir_id irs)" and ab: "a \<noteq> b"
    and own: "list_ex (\<lambda>ir. ir_id ir = seg_ir_id rs \<and> ir_namespace ir = a) irs"
  shows "concat (map (\<lambda>ir. if seg_ir_id rs = ir_id ir then if ir_namespace ir = b then [g ir] else [] else []) irs) = []"
proof -
  from own obtain ir0 where ir0: "ir0 \<in> set irs" "ir_id ir0 = seg_ir_id rs" "ir_namespace ir0 = a"
    by (auto simp: list_ex_iff)
  have "\<And>ir. ir \<in> set irs \<Longrightarrow> seg_ir_id rs = ir_id ir \<Longrightarrow> ir_namespace ir \<noteq> b"
  proof -
    fix ir assume "ir \<in> set irs" "seg_ir_id rs = ir_id ir"
    with d ir0 have "ir = ir0"
      using distinct_map_eq [of ir_id irs ir ir0] by simp
    with ir0 ab show "ir_namespace ir \<noteq> b" by simp
  qed
  then show ?thesis by auto
qed

lemma count_segments_without:
  assumes "a \<noteq> b" and "b \<noteq> []" and "distinct (map ir_id (information_resources s))"
  shows "count_segments (without_namespace a s) (Some b) = count_segments s (Some b)"
proof -
  let ?irs = "information_resources s"
  let ?f = "\<lambda>rs. concat (map (\<lambda>ir. if seg_ir_id rs = ir_id ir then if ir_namespace ir = b then [(rs, ir)] else [] else []) ?irs)"
  have "concat (map ?f (filter (\<lambda>rs. \<not> owned_by_namespace s a rs) (resource_segments s))) =
        concat (map ?f (resource_segments s))"
  proof (rule concat_map_filter)
    fix rs assume "\<not> \<not> owned_by_namespace s a rs"
    then have "list_ex (\<lambda>ir. ir_id ir = seg_ir_id rs \<and> ir_namespace ir = a) ?irs"
      by (simp add: owned_by_namespace_def)
    from ir_join_owned_empty [OF assms(3) assms(1) this]
    show "?f rs = []" .
  qed
  then show ?thesis
    using assms(2) by (simp add: count_segments_def truthy_def without_namespace_def
        ir_join_without [OF assms(1)] cong: if_cong)
qed

lemma embedding_rows_without:
  assumes "a \<noteq> b" and "b \<noteq> []" and "distinct (map ir_id (information_resources s))"
  shows "embedding_rows (without_namespace a s) (Some b) = embedding_rows s (Some b)"
proof -
  let ?irs = "information_resources s"
  let ?h = "\<lambda>e rs. concat (map (\<lambda>ir. if seg_ir_id rs = ir_id ir then if ir_namespace ir = b then [(e, rs, ir)] else [] else []) ?irs)"
  let ?g = "\<lambda>e rs. if emb_segment_id e = seg_id rs then ?h e rs else []"
  have "concat (map (?g e) (filter (\<lambda>rs. \<not> owned_by_namespace s a rs) (resource_segments s))) =
        concat (map (?g e) (resource_segments s))" for e :: Embedding
  proof (rule concat_map_filter)
    fix rs assume "\<not> \<not> owned_by_namespace s a rs"
    then have "list_ex (\<lambda>ir. ir_id ir = seg_ir_id rs \<and> ir_namespace ir = a) ?irs"
      by (simp add: owned_by_namespace_def)
    then have h: "?h e rs = []"
      by (rule ir_join_owned_empty [OF assms(3) assms(1)])
    show "?g e rs = []"
      unfolding h by simp
  qed
  then show ?thesis
    using assms(2) by (simp add: embedding_rows_def truthy_def without_namespace_def
        ir_join_without [OF assms(1)] cong: if_cong)
qed

lemma search_without:
  assumes "a \<noteq> b" and "b \<noteq> []" and "distinct (map ir_id (information_resources s))"
  shows "search_by_embedding (without_namespace a s) q k (Some b) = search_by_embedding s q k (Some b)"
  by (simp add: search_by_embedding_def embedding_rows_without [OF assms])

lemma list_entities_without:
  assumes "a \<noteq> b" and "b \<noteq> []"
  shows "list_entities (without_namespace a s) (Some b) ty = list_entities s (Some b) ty"
proof -
  have "filter (\<lambda>r. ent_namespace r = b \<and> (truthy ty \<longrightarrow> ent_type r = the ty))
          (filter (\<lambda>e. ent_namespace e \<noteq> a) (entities s)) =
        filter (\<lambda>r. ent_namespace r = b \<and> (truthy ty \<longrightarrow> ent_type r = the ty)) (entities s)"
    using assms(1) by (auto intro: filter_cong)
  then show ?thesis
    using assms(2) by (simp add: list_entities_def truthy_def without_namespace_def)
qed

lemma find_filter_imp:
  "(\<And>x. P x \<Longrightarrow> Q x) \<Longrightarrow> find P (filter Q xs) = find P xs"
  by (induction xs) auto

lemma get_entity_by_name_without:
  assumes "a \<noteq> b"
  shows "get_entity_by_name (without_namespace a s) b ty nm = get_entity_by_name s b ty nm"
proof -
  have "find (\<lambda>r. ent_namespace r = b \<and> ent_type r = ty \<and> ent_name r = nm)
          (filter (\<lambda>e. ent_namespace e \<noteq> a) (entities s)) =
        find (\<lambda>r. ent_namespace r = b \<and> ent_type r = ty \<and> ent_name r = nm) (entities s)"
    by (rule find_filter_imp) (use assms in auto)
  then show ?thesis
    by (simp add: get_entity_by_name_def without_namespace_def)
qed

lemma get_entity_without:
  assumes "a \<noteq> b" and "b \<noteq> []"
  shows "get_entity (without_namespace a s) nm b ety = get_entity s nm b ety"
  by (simp add: get_entity_def get_entity_by_name_without [OF assms(1)]
      list_entities_without [OF assms])

lemma list_entities_namespace:
  assumes "b \<noteq> []" and "e \<in> set (list_entities s (Some b) ty)"
  shows "ent_namespace e = b"
  using assms by (simp add: list_entities_def truthy_def)

lemma get_entity_by_name_namespace:
  "get_entity_by_name s b ty nm = Some e \<Longrightarrow> ent_namespace e = b"
  by (auto simp: get_entity_by_name_def dest: find_Some_iff [THEN iffD1])

lemma embedding_rows_namespace:
  assumes "b \<noteq> []" and "(e, rs, ir) \<in> set (embedding_rows s (Some b))"
  shows "ir_namespace ir = b"
  using assms by (auto simp: embedding_rows_def truthy_def split: if_splits)

lemma filter_map_unchanged:
  "(\<And>x. x \<in> set xs \<Longrightarrow> P (f x) = P x) \<Longrightarrow> (\<And>x. x \<in> set xs \<Longrightarrow> P x \<Longrightarrow> f x = x) \<Longrightarrow>
   filter P (map f xs) = filter P xs"
  by (induction xs) auto

lemma upsert_entity_other_rows:
  assumes ns: "ent_namespace e = a" and ab: "a \<noteq> b"
    and d: "distinct (map ent_id (entities s))"
    and up: "upsert_entity s now e = Inr (e', s')"
  shows "filter (\<lambda>r. ent_namespace r = b) (entities s') = filter (\<lambda>r. ent_namespace r = b) (entities s)"
proof (cases "get_entity_by_name s (ent_namespace e) (ent_type e) (ent_name e)")
  case None
  with up have "entities s' = entities s @ [e]"
    by (auto simp: upsert_entity_def insert_entity_def split: if_splits)
  with ns ab show ?thesis by simp
next
  case (Some existing)
  let ?upd = "\<lambda>r. if ent_id r = ent_id existing
                   then r\<lparr>ent_aliases := ent_aliases e, ent_metadata := ent_metadata e,
                          ent_updated_at := now\<rparr>
                   else r"
  from Some have ex: "existing \<in> set (entities s)" "ent_namespace existing = a"
    using ns by (auto simp: get_entity_by_name_def find_Some_iff)
  from Some up have s': "entities s' = map ?upd (entities s)"
    by (auto simp: upsert_entity_def Let_def)
  have "filter (\<lambda>r. ent_namespace r = b) (map ?upd (entities s)) =
        filter (\<lambda>r. ent_namespace r = b) (entities s)"
  proof (rule filter_map_unchanged)
    fix x assume "x \<in> set (entities s)"
    show "(ent_namespace (?upd x) = b) = (ent_namespace x = b)" by simp
  next
    fix x assume x: "x \<in> set (entities s)" "ent_namespace x = b"
    have "ent_id x \<noteq> ent_id existing"
    proof
      assume "ent_id x = ent_id existing"
      with d x(1) ex(1) have "x = existing"
        using distinct_map_eq [of ent_id "entities s" x existing] by simp
      with x(2) ex(2) ab show False by simp
    qed
    then show "?upd x = x" by simp
  qed
  with s' show ?thesis by simp
qed

lemma find_via_filter:
  "(\<And>x. P x \<Longrightarrow> Q x) \<Longrightarrow> find P xs = find P (filter Q xs)"
  by (induction xs) auto

lemma get_entity_by_name_via_namespace:
  "get_entity_by_name s b ty nm =
   find (\<lambda>r. ent_namespace r = b \<and> ent_type r = ty \<and> ent_name r = nm)
     (filter (\<lambda>r. ent_namespace r = b) (entities s))"
  unfolding get_entity_by_name_def by (rule find_via_filter) simp

lemma list_entities_via_namespace:
  "b \<noteq> [] \<Longrightarrow>
   list_entities s (Some b) ty =
   sort_key ent_name (filter (\<lambda>r. truthy ty \<longrightarrow> ent_type r = the ty)
     (filter (\<lambda>r. ent_namespace r = b) (entities s)))"
  by (simp add: list_entities_def truthy_def conj_commute)

lemma upsert_entity_other_namespace:
  assumes "ent_namespace e = a" and "a \<noteq> b" and "b \<noteq> []"
    and "distinct (map ent_id (entities s))"
    and "upsert_entity s now e = Inr (e', s')"
  shows "list_entities s' (Some b) ty = list_entities s (Some b) ty \<and>
         get_entity_by_name s' b ety nm = get_entity_by_name s b ety nm"
  using upsert_entity_other_rows [OF assms(1,2,4,5)] assms(3)
  by (simp add: get_entity_by_name_via_namespace list_entities_via_namespace)

text \<open>
  Claim C6, as amended.  Let \<open>a\<close> and \<open>b\<close> be distinct namespaces, \<open>b\<close> not empty, in a
  store whose resource identifiers are unique (the primary key).  Every query scoped to
  \<open>b\<close> -- segment count, entity listing, entity lookup by key or by name, embedding
  search -- gives the same answer on the store and on the store without the resources,
  segments and entities of \<open>a\<close>, and it returns only entities and rows of namespace
  \<open>b\<close>.  Upserting an entity of \<open>a\<close> (entity identifiers being unique) leaves the entity
  listing and lookup of \<open>b\<close> unchanged, also when \<open>b\<close> has an entity of the same type
  and name.
\<close>

theorem namespace_isolation:
  assumes "a \<noteq> b" and "b \<noteq> []" and "distinct (map ir_id (information_resources s))"
  shows
    "count_segments (without_namespace a s) (Some b) = count_segments s (Some b) \<and>
     list_entities (without_namespace a s) (Some b) ty = list_entities s (Some b) ty \<and>
     get_entity_by_name (without_namespace a s) b ety nm = get_entity_by_name s b ety nm \<and>
     get_entity (without_namespace a s) nm b ty = get_entity s nm b ty \<and>
     search_by_embedding (without_namespace a s) q k (Some b) = search_by_embedding s q k (Some b) \<and>
     (\<forall>e \<in> set (list_entities s (Some b) ty). ent_namespace e = b) \<and>
     (\<forall>e. get_entity_by_name s b ety nm = Some e \<longrightarrow> ent_namespace e = b) \<and>
     (\<forall>r \<in> set (embedding_rows s (Some b)). ir_namespace (snd (snd r)) = b) \<and>
     (\<forall>e e' s' now.
        ent_namespace e = a \<and> distinct (map ent_id (entities s)) \<and>
        upsert_entity s now e = Inr (e', s') \<longrightarrow>
        list_entities s' (Some b) ty = list_entities s (Some b) ty \<and>
        get_entity_by_name s' b ety nm = get_entity_by_name s b ety nm)"
proof (intro conjI)
  show "count_segments (without_namespace a s) (Some b) = count_segments s (Some b)"
    using assms by (rule count_segments_without)
  show "list_entities (without_namespace a s) (Some b) ty = list_entities s (Some b) ty"
    using assms(1,2) by (rule list_entities_without)
  show "get_entity_by_name (without_namespace a s) b ety nm = get_entity_by_name s b ety nm"
    using assms(1) by (rule get_entity_by_name_without)
  show "get_entity (without_namespace a s) nm b ty = get_entity s nm b ty"
    using assms(1,2) by (rule get_entity_without)
  show "search_by_embedding (without_namespace a s) q k (Some b) = search_by_embedding s q k (Some b)"
    using assms by (rule search_without)
  show "\<forall>e \<in> set (list_entities s (Some b) ty). ent_namespace e = b"
    using list_entities_namespace [OF assms(2)] by blast
  show "\<forall>e. get_entity_by_name s b ety nm = Some e \<longrightarrow> ent_namespace e = b"
    using get_entity_by_name_namespace by blast
  show "\<forall>r \<in> set (embedding_rows s (Some b)). ir_namespace (snd (snd r)) = b"
    using embedding_rows_namespace [OF assms(2)] by auto
  show "\<forall>e e' s' now.
        ent_namespace e = a \<and> distinct (map ent_id (entities s)) \<and>
        upsert_entity s now e = Inr (e', s') \<longrightarrow>
        list_entities s' (Some b) ty = list_entities s (Some b) ty \<and>
        get_entity_by_name s' b ety nm = get_entity_by_name s b ety nm"
    using upsert_entity_other_namespace [OF _ assms(1,2)] by blast
qed

lemmas iso_defs =
  iso_store_def iso_store_a_def iso_ir_a_def iso_ir_b_def iso_seg_a_def iso_seg_b_def
  iso_ent_a_def iso_ent_b_def

theorem empty_namespace_counterexample:
  "''lab_a'' \<noteq> [] \<and>
   owned_by_namespace iso_store_a ''lab_a'' iso_seg_a \<and>
   ent_namespace iso_ent_a = ''lab_a'' \<and>
   count_segments iso_store_a (Some []) = 1 \<and>
   list_entities iso_store_a (Some []) None = [iso_ent_a]"
  by (simp add: count_segments_def list_entities_def truthy_def owned_by_namespace_def iso_defs)

theorem namespace_isolation_witness:
  "''lab_a'' \<noteq> ''lab_b'' \<and> ''lab_b'' \<noteq> [] \<and>
   distinct (map ir_id (information_resources iso_store)) \<and>
   count_segments iso_store (Some ''lab_b'') = 1 \<and>
   count_segments (without_namespace ''lab_a'' iso_store) (Some ''lab_b'') = 1 \<and>
   list_entities iso_store (Some ''lab_b'') None = [iso_ent_b] \<and>
   list_entities (without_namespace ''lab_a'' iso_store) (Some ''lab_b'') None = [iso_ent_b] \<and>
   get_entity_by_name iso_store ''lab_b'' ''gene'' ''BRCA1'' = Some iso_ent_b \<and>
   get_entity_by_name (without_namespace ''lab_a'' iso_store) ''lab_b'' ''gene'' ''BRCA1'' =
     Some iso_ent_b \<and>
   search_by_embedding (without_namespace ''lab_a'' iso_store) [1, 0] 5 (Some ''lab_b'') =
     search_by_embedding iso_store [1, 0] 5 (Some ''lab_b'') \<and>
   resource_segments (without_namespace ''lab_a'' iso_store) = [iso_seg_b]"
proof -
  have h: "''lab_a'' \<noteq> ''lab_b''" "''lab_b'' \<noteq> []"
    "distinct (map ir_id (information_resources iso_store))"
    by (simp_all add: iso_defs)
  note main = namespace_isolation [OF h, of None "''gene''" "''BRCA1''" "[1, 0]" 5]
  have c: "count_segments iso_store (Some ''lab_b'') = 1"
    by (simp add: count_segments_def truthy_def iso_defs)
  have l: "list_entities iso_store (Some ''lab_b'') None = [iso_ent_b]"
    by (simp add: list_entities_def truthy_def iso_defs)
  have g: "get_entity_by_name iso_store ''lab_b'' ''gene'' ''BRCA1'' = Some iso_ent_b"
    by (simp add: get_entity_by_name_def iso_defs)
  have w: "resource_segments (without_namespace ''lab_a'' iso_store) = [iso_seg_b]"
    by (simp add: without_namespace_def owned_by_namespace_def iso_defs)
  from main c l g w h show ?thesis by simp
qed
section \<open>Repeated ingestion\<close>

lemma untimed_fields [simp]:
  "seg_id (untimed x) = seg_id x" "seg_text (untimed x) = seg_text x"
  "seg_ir_id (untimed x) = seg_ir_id x"
  by (simp_all add: untimed_def)

lemma untimed_map_fields:
  assumes "map untimed xs = map untimed ys"
  shows "map seg_id xs = map seg_id ys" and "map seg_text xs = map seg_text ys"
    and "length xs = length ys"
proof -
  have "map seg_id (map untimed xs) = map seg_id (map untimed ys)"
    and "map seg_text (map untimed xs) = map seg_text (map untimed ys)"
    using assms by simp_all
  then show "map seg_id xs = map seg_id ys" and "map seg_text xs = map seg_text ys"
    by (simp_all add: comp_def)
  show "length xs = length ys" using assms by (metis length_map)
qed

subsection \<open>Segment upserts\<close>

lemma find_SomeD: "find P xs = Some x \<Longrightarrow> P x \<and> x \<in> set xs"
  by (induction xs) (auto split: if_splits)

lemma find_map_same:
  assumes "\<And>y. P (f y) = P y"
  shows "find P (map f xs) = map_option f (find P xs)"
  using assms by (induction xs) auto

lemma upsert_segment_frame:
  assumes "upsert_segment s seg = (seg', s')"
  shows "information_resources s' = information_resources s"
    and "entities s' = entities s"
    and "untimed seg' = untimed seg"
  using assms
  by (auto simp: upsert_segment_def get_segment_by_id_def untimed_def split: option.splits)

lemma upsert_segment_table:
  assumes "upsert_segment s seg = (seg', s')"
  shows "(seg_id seg \<in> segment_ids s \<and>
          map seg_id (resource_segments s') = map seg_id (resource_segments s) \<and>
          map seg_ir_id (resource_segments s') = map seg_ir_id (resource_segments s)) \<or>
         (seg_id seg \<notin> segment_ids s \<and> resource_segments s' = resource_segments s @ [seg])"
proof (cases "get_segment_by_id s (seg_id seg)")
  case None
  then have "seg_id seg \<notin> segment_ids s"
    by (auto simp: get_segment_by_id_def segment_ids_def find_None_iff)
  then show ?thesis using assms None by (auto simp: upsert_segment_def)
next
  case (Some existing)
  then have "seg_id existing = seg_id seg \<and> existing \<in> set (resource_segments s)"
    unfolding get_segment_by_id_def by (rule find_SomeD)
  then have "seg_id seg \<in> segment_ids s"
    unfolding segment_ids_def by (metis image_eqI set_map)
  then show ?thesis using assms Some by (auto simp: upsert_segment_def)
qed

lemma upsert_segment_ids:
  assumes "upsert_segment s seg = (seg', s')"
  shows "segment_ids s' = insert (seg_id seg) (segment_ids s)"
proof -
  consider
    (known) "seg_id seg \<in> segment_ids s"
      "map seg_id (resource_segments s') = map seg_id (resource_segments s)"
  | (fresh) "resource_segments s' = resource_segments s @ [seg]"
    using upsert_segment_table [OF assms] by blast
  then show ?thesis
  proof cases
    case known
    have "segment_ids s' = segment_ids s" by (simp only: segment_ids_def known(2))
    with known(1) show ?thesis by auto
  next
    case fresh
    then show ?thesis by (simp add: segment_ids_def)
  qed
qed

lemma bulk_upsert_segments_frame:
  assumes "bulk_upsert_segments s segs = (segs', s')"
  shows "information_resources s' = information_resources s \<and> entities s' = entities s \<and>
         map untimed segs' = map untimed segs \<and>
         segment_ids s' = segment_ids s \<union> seg_id ` set segs"
  using assms
proof (induction segs arbitrary: s segs' s')
  case Nil
  then show ?case by simp
next
  case (Cons seg segs)
  obtain seg1 s1 where u: "upsert_segment s seg = (seg1, s1)" by force
  obtain rest s2 where b: "bulk_upsert_segments s1 segs = (rest, s2)" by force
  from Cons.prems u b have e: "segs' = seg1 # rest" "s' = s2" by simp_all
  show ?case
    using Cons.IH [OF b] upsert_segment_frame [OF u] upsert_segment_ids [OF u]
    unfolding e by auto
qed

lemma bulk_upsert_segments_known:
  assumes "bulk_upsert_segments s segs = (segs', s')" and "seg_id ` set segs \<subseteq> segment_ids s"
  shows "map seg_id (resource_segments s') = map seg_id (resource_segments s) \<and>
         map seg_ir_id (resource_segments s') = map seg_ir_id (resource_segments s)"
  using assms
proof (induction segs arbitrary: s segs' s')
  case Nil
  then show ?case by simp
next
  case (Cons seg segs)
  obtain seg1 s1 where u: "upsert_segment s seg = (seg1, s1)" by force
  obtain rest s2 where b: "bulk_upsert_segments s1 segs = (rest, s2)" by force
  from Cons.prems u b have e: "s' = s2" by simp
  from Cons.prems have k: "seg_id seg \<in> segment_ids s" by simp
  with upsert_segment_table [OF u]
  have t: "map seg_id (resource_segments s1) = map seg_id (resource_segments s)"
          "map seg_ir_id (resource_segments s1) = map seg_ir_id (resource_segments s)"
    by auto
  have "segment_ids s1 = segment_ids s" using upsert_segment_ids [OF u] k by auto
  with Cons.prems have "seg_id ` set segs \<subseteq> segment_ids s1" by simp
  from Cons.IH [OF b this] show ?case unfolding e t by simp
qed

lemma length_join_rows:
  fixes segs :: "ResourceSegment list" and irs :: "InformationResource list"
  shows
  "length [(rs, ir). rs \<leftarrow> segs, ir \<leftarrow> irs, seg_ir_id rs = ir_id ir, ir_namespace ir = n] =
   sum_list (map (\<lambda>i. length (filter (\<lambda>ir. i = ir_id ir \<and> ir_namespace ir = n) irs))
              (map seg_ir_id segs))"
proof -
  have one: "length (concat (map (\<lambda>ir. if i = ir_id ir
                                         then if ir_namespace ir = n then [(rs, ir)] else []
                                         else []) irs)) =
             length (filter (\<lambda>ir. i = ir_id ir \<and> ir_namespace ir = n) irs)"
    for i and rs :: ResourceSegment
    by (induction irs) auto
  show ?thesis by (induction segs) (simp_all add: one)
qed

lemma count_segments_cong:
  assumes "information_resources s' = information_resources s"
    and "map seg_ir_id (resource_segments s') = map seg_ir_id (resource_segments s)"
  shows "count_segments s' namespace = count_segments s namespace"
proof -
  have len: "length (resource_segments s') = length (resource_segments s)"
    using assms(2) by (metis length_map)
  show ?thesis
    unfolding count_segments_def length_join_rows assms len ..
qed

subsection \<open>Links and embeddings\<close>

lemma add_entity_link_frame:
  "information_resources (add_entity_link s l) = information_resources s \<and>
   resource_segments (add_entity_link s l) = resource_segments s \<and>
   entities (add_entity_link s l) = entities s"
  by (simp add: add_entity_link_def)

lemma bulk_add_entity_links_frame:
  "information_resources (bulk_add_entity_links s ls) = information_resources s \<and>
   resource_segments (bulk_add_entity_links s ls) = resource_segments s \<and>
   entities (bulk_add_entity_links s ls) = entities s"
  unfolding bulk_add_entity_links_def
  by (induction ls arbitrary: s) (simp_all add: add_entity_link_frame)

lemma add_embedding_frame:
  "information_resources (add_embedding s now i m v) = information_resources s \<and>
   resource_segments (add_embedding s now i m v) = resource_segments s \<and>
   entities (add_embedding s now i m v) = entities s"
  by (simp add: add_embedding_def Let_def)

lemma bulk_add_embeddings_frame:
  "information_resources (bulk_add_embeddings s clock ids m vs) = information_resources s \<and>
   resource_segments (bulk_add_embeddings s clock ids m vs) = resource_segments s \<and>
   entities (bulk_add_embeddings s clock ids m vs) = entities s"
  by (induction s clock ids m vs rule: bulk_add_embeddings.induct)
     (simp_all add: add_embedding_frame)

lemma embed_segments_frame:
  assumes "embed_segments env (s, t) segs = (s', t')"
  shows "information_resources s' = information_resources s \<and>
         resource_segments s' = resource_segments s \<and> entities s' = entities s"
  using assms
  by (auto simp: embed_segments_def Let_def bulk_add_embeddings_frame split: if_splits)

subsection \<open>Entity extraction and linking\<close>

lemma find_append_known: "find P xs \<noteq> None \<Longrightarrow> find P (xs @ ys) \<noteq> None"
  by (induction xs) auto

lemma find_append_new: "find P xs = None \<Longrightarrow> find P (xs @ ys) = find P ys"
  by (induction xs) (auto split: if_splits)

lemma link_extracted_entity_result:
  assumes "link_extracted_entity env ns seg x (ents, links, s, t) = Inr (ents', links', s', t')"
  shows "information_resources s' = information_resources s \<and>
         resource_segments s' = resource_segments s \<and>
         confidence_ok (ext_confidence x) \<and> known_entity s' ns x \<and>
         (\<forall>y. known_entity s ns y \<longrightarrow> known_entity s' ns y)"
proof -
  have c: "confidence_ok (ext_confidence x)"
    using assms
    by (auto simp: link_extracted_entity_def EntityLink_init_def Let_def
          split: option.splits sum.splits if_splits)
  show ?thesis
  proof (cases "get_entity_by_name s ns (ext_type x) (ext_name x)")
    case (Some e)
    with assms c have "s' = s"
      by (auto simp: link_extracted_entity_def EntityLink_init_def Let_def)
    with Some c show ?thesis by (simp add: known_entity_def)
  next
    case None
    define e where "e = \<lparr>ent_id = uuid4 env t, ent_namespace = ns,
                                 ent_type = ext_type x, ent_name = ext_name x,
                                 ent_aliases = ext_aliases x,
                                 ent_metadata = ext_metadata x,
                                 ent_created_at = utcnow env (t + 1),
                                 ent_updated_at = utcnow env (t + 2)\<rparr>"
    from assms c None have "s' = s\<lparr>entities := entities s @ [e]\<rparr>"
      by (auto simp: link_extracted_entity_def EntityLink_init_def Let_def upsert_entity_def
            insert_entity_def e_def split: sum.splits if_splits)
    then show ?thesis
      using None c
      by (auto simp: known_entity_def get_entity_by_name_def e_def find_append_known
            find_append_new split: option.splits)
  qed
qed

lemma link_extracted_entity_known:
  assumes "known_entity s ns x" and "confidence_ok (ext_confidence x)"
  shows "\<exists>l. link_extracted_entity env ns seg x (ents, links, s, t) =
              Inr (ents, links @ [l], s, t + 5)"
  using assms
  by (auto simp: known_entity_def link_extracted_entity_def EntityLink_init_def Let_def)

lemma link_extracted_result:
  assumes "link_extracted env ns seg xs (ents, links, s, t) = Inr (ents', links', s', t')"
  shows "information_resources s' = information_resources s \<and>
         resource_segments s' = resource_segments s \<and>
         list_all (\<lambda>x. confidence_ok (ext_confidence x) \<and> known_entity s' ns x) xs \<and>
         (\<forall>y. known_entity s ns y \<longrightarrow> known_entity s' ns y)"
  using assms
proof (induction xs arbitrary: ents links s t)
  case Nil
  then show ?case by simp
next
  case (Cons x xs)
  obtain e1 l1 s1 t1
    where step: "link_extracted_entity env ns seg x (ents, links, s, t) = Inr (e1, l1, s1, t1)"
  proof (cases "link_extracted_entity env ns seg x (ents, links, s, t)")
    case (Inl e)
    with Cons.prems show ?thesis by simp
  next
    case (Inr st)
    with that show ?thesis by (cases st) auto
  qed
  with Cons.prems
  have rest: "link_extracted env ns seg xs (e1, l1, s1, t1) = Inr (ents', links', s', t')"
    by simp
  show ?case
    using link_extracted_entity_result [OF step] Cons.IH [OF rest] by simp
qed

lemma link_extracted_known:
  assumes "list_all (\<lambda>x. confidence_ok (ext_confidence x) \<and> known_entity s ns x) xs"
  shows "\<exists>links' t'. link_extracted env ns seg xs (ents, links, s, t) = Inr (ents, links', s, t')"
  using assms
proof (induction xs arbitrary: links t)
  case Nil
  then show ?case by simp
next
  case (Cons x xs)
  then obtain l where
    "link_extracted_entity env ns seg x (ents, links, s, t) = Inr (ents, links @ [l], s, t + 5)"
    using link_extracted_entity_known [of s ns x env seg ents links t] by auto
  moreover obtain links' t'
    where "link_extracted env ns seg xs (ents, links @ [l], s, t + 5) = Inr (ents, links', s, t')"
    using Cons.IH [of "links @ [l]" "t + 5"] Cons.prems by auto
  ultimately show ?case by simp
qed

lemma resolvable_mono:
  assumes "resolvable env ns s text" and "\<forall>y. known_entity s ns y \<longrightarrow> known_entity s' ns y"
  shows "resolvable env ns s' text"
  using assms by (auto simp: resolvable_def list_all_iff split: sum.splits)

lemma resolvable_cong:
  assumes "entities s' = entities s"
  shows "resolvable env ns s' text = resolvable env ns s text"
proof -
  have "known_entity s' ns = known_entity s ns"
    by (rule ext) (simp add: known_entity_def get_entity_by_name_def assms)
  then show ?thesis by (simp only: resolvable_def)
qed

lemma extract_loop_result:
  assumes "extract_loop env ns segs (ents, links, s, t) = Inr (ents', links', s', t')"
  shows "information_resources s' = information_resources s \<and>
         resource_segments s' = resource_segments s \<and>
         list_all (\<lambda>seg. resolvable env ns s' (seg_text seg)) segs \<and>
         (\<forall>y. known_entity s ns y \<longrightarrow> known_entity s' ns y)"
  using assms
proof (induction segs arbitrary: ents links s t)
  case Nil
  then show ?case by simp
next
  case (Cons seg segs)
  obtain xs where ex: "entity_extract env (seg_text seg) = Inr xs"
    using Cons.prems by (cases "entity_extract env (seg_text seg)") simp_all
  obtain e1 l1 s1 t1
    where inner: "link_extracted env ns seg xs (ents, links, s, t) = Inr (e1, l1, s1, t1)"
  proof (cases "link_extracted env ns seg xs (ents, links, s, t)")
    case (Inl e)
    with Cons.prems ex show ?thesis by simp
  next
    case (Inr st)
    with that show ?thesis by (cases st) auto
  qed
  with Cons.prems ex
  have rest: "extract_loop env ns segs (e1, l1, s1, t1) = Inr (ents', links', s', t')"
    by simp
  note a = link_extracted_result [OF inner] and b = Cons.IH [OF rest]
  from a ex have "resolvable env ns s1 (seg_text seg)" by (simp add: resolvable_def)
  with b have "resolvable env ns s' (seg_text seg)" by (blast intro: resolvable_mono)
  with a b show ?case by simp
qed

lemma extract_loop_known:
  assumes "list_all (\<lambda>seg. resolvable env ns s (seg_text seg)) segs"
  shows "\<exists>links' t'. extract_loop env ns segs (ents, links, s, t) = Inr (ents, links', s, t')"
  using assms
proof (induction segs arbitrary: links t)
  case Nil
  then show ?case by simp
next
  case (Cons seg segs)
  then obtain xs where ex: "entity_extract env (seg_text seg) = Inr xs"
    and ok: "list_all (\<lambda>x. confidence_ok (ext_confidence x) \<and> known_entity s ns x) xs"
    by (auto simp: resolvable_def split: sum.splits)
  obtain l1 t1 where "link_extracted env ns seg xs (ents, links, s, t) = Inr (ents, l1, s, t1)"
    using link_extracted_known [OF ok] by blast
  moreover obtain links' t'
    where "extract_loop env ns segs (ents, l1, s, t1) = Inr (ents, links', s, t')"
    using Cons.IH [of l1 t1] Cons.prems by auto
  ultimately show ?case using ex by simp
qed

lemma extract_and_link_entities_result:
  assumes "extract_and_link_entities env (s, t) segs ns = Inr (found, (s', t'))"
  shows "information_resources s' = information_resources s \<and>
         resource_segments s' = resource_segments s \<and>
         list_all (\<lambda>seg. resolvable env ns s' (seg_text seg)) segs"
proof -
  obtain e1 links s1 t1
    where loop: "extract_loop env ns segs ([], [], s, t) = Inr (e1, links, s1, t1)"
  proof (cases "extract_loop env ns segs ([], [], s, t)")
    case (Inl e)
    with assms show ?thesis by (simp add: extract_and_link_entities_def)
  next
    case (Inr st)
    with that show ?thesis by (cases st) auto
  qed
  with assms have s': "s' = (if links \<noteq> [] then bulk_add_entity_links s1 links else s1)"
    by (simp add: extract_and_link_entities_def Let_def)
  have f: "entities s' = entities s1" "information_resources s' = information_resources s1"
    "resource_segments s' = resource_segments s1"
    by (simp_all add: s' bulk_add_entity_links_frame)
  have "resolvable env ns s' = resolvable env ns s1"
    by (rule ext) (rule resolvable_cong [OF f(1)])
  with extract_loop_result [OF loop] f show ?thesis by simp
qed

lemma extract_and_link_entities_known:
  assumes "list_all (\<lambda>seg. resolvable env ns s (seg_text seg)) segs"
  shows "\<exists>s' t'. extract_and_link_entities env (s, t) segs ns = Inr ([], (s', t')) \<and>
           information_resources s' = information_resources s \<and>
           resource_segments s' = resource_segments s \<and> entities s' = entities s"
proof -
  obtain links t' where "extract_loop env ns segs ([], [], s, t) = Inr ([], links, s, t')"
    using extract_loop_known [OF assms] by blast
  then show ?thesis
    by (simp add: extract_and_link_entities_def Let_def bulk_add_entity_links_frame)
qed

subsection \<open>Storing and linking\<close>

lemma list_all_seg_text:
  "list_all (\<lambda>seg. P (seg_text seg)) segs = list_all P (map seg_text segs)"
  by (simp add: list_all_iff)

lemma store_and_link_result:
  assumes "store_and_link env (s, t) ir segs ns = Inr ((ir', segs', found), (s', t'))"
  shows "information_resources s' = information_resources s \<and>
         length segs' = length segs \<and>
         seg_id ` set segs \<subseteq> segment_ids s' \<and>
         list_all (\<lambda>seg. resolvable env ns s' (seg_text seg)) segs \<and>
         ir' = ir \<and> map untimed segs' = map untimed segs"
proof (cases "segs = []")
  case True
  with assms show ?thesis by (simp add: store_and_link_def)
next
  case False
  obtain segs1 s1 where up: "bulk_upsert_segments s segs = (segs1, s1)" by force
  obtain f1 s2 t2 where ex: "extract_and_link_entities env (s1, t) segs1 ns = Inr (f1, (s2, t2))"
  proof (cases "extract_and_link_entities env (s1, t) segs1 ns")
    case (Inl e)
    with assms False up show ?thesis by (simp add: store_and_link_def)
  next
    case (Inr r)
    with that show ?thesis by (cases r) auto
  qed
  with assms False up have e: "segs' = segs1" "s' = s2" "ir' = ir"
    by (simp_all add: store_and_link_def)
  note a = bulk_upsert_segments_frame [OF up] and b = extract_and_link_entities_result [OF ex]
  from a have "map untimed segs1 = map untimed segs" by simp
  then have u: "map seg_text segs1 = map seg_text segs" "length segs1 = length segs"
    by (rule untimed_map_fields)+
  have "segment_ids s2 = segment_ids s1" using b by (simp add: segment_ids_def)
  with a have "seg_id ` set segs \<subseteq> segment_ids s2" by simp
  moreover have "list_all (\<lambda>seg. resolvable env ns s2 (seg_text seg)) segs"
    using b unfolding list_all_seg_text u by simp
  ultimately show ?thesis using a b u unfolding e by simp
qed

lemma store_and_link_known:
  assumes "seg_id ` set segs \<subseteq> segment_ids s"
    and "list_all (\<lambda>seg. resolvable env ns s (seg_text seg)) segs"
  shows "\<exists>segs' found s' t'.
           store_and_link env (s, t) ir segs ns = Inr ((ir, segs', found), (s', t')) \<and>
           length segs' = length segs \<and>
           information_resources s' = information_resources s \<and>
           map seg_id (resource_segments s') = map seg_id (resource_segments s) \<and>
           map seg_ir_id (resource_segments s') = map seg_ir_id (resource_segments s) \<and>
           entities s' = entities s"
proof (cases "segs = []")
  case True
  then show ?thesis by (simp add: store_and_link_def)
next
  case False
  obtain segs1 s1 where up: "bulk_upsert_segments s segs = (segs1, s1)" by force
  note a = bulk_upsert_segments_frame [OF up] and k = bulk_upsert_segments_known [OF up assms(1)]
  from a have "map untimed segs1 = map untimed segs" by simp
  then have u: "map seg_text segs1 = map seg_text segs" "length segs1 = length segs"
    by (rule untimed_map_fields)+
  have "resolvable env ns s1 = resolvable env ns s"
    using a by (intro ext resolvable_cong) simp
  with assms(2) have "list_all (\<lambda>seg. resolvable env ns s1 (seg_text seg)) segs1"
    unfolding list_all_seg_text u by simp
  from extract_and_link_entities_known [OF this, of t]
  obtain s2 t2 where ex: "extract_and_link_entities env (s1, t) segs1 ns = Inr ([], (s2, t2))"
    and f: "information_resources s2 = information_resources s1"
      "resource_segments s2 = resource_segments s1" "entities s2 = entities s1"
    by blast
  have "store_and_link env (s, t) ir segs ns = Inr ((ir, segs1, []), (s2, t2))"
    using False up ex by (simp add: store_and_link_def)
  then show ?thesis using a k u f by simp
qed

subsection \<open>Registering the resource\<close>

lemma upsert_ir_existing:
  assumes "get_ir_by_uri s (ir_namespace x) (ir_source_uri x) = Some existing"
  shows "upsert_information_resource s now x =
           Inr (x\<lparr>ir_updated_at := now, ir_id := ir_id existing,
                  ir_created_at := ir_created_at existing\<rparr>,
                s\<lparr>information_resources :=
                    map (\<lambda>r. if ir_id r = ir_id existing
                             then r\<lparr>ir_content_hash := ir_content_hash x,
                                    ir_metadata := ir_metadata x, ir_updated_at := now\<rparr>
                             else r)
                      (information_resources s)\<rparr>)"
  using assms by (simp add: upsert_information_resource_def Let_def)

lemma register_ir_result:
  assumes "register_ir env (s, t) file_path ns ty md = Inr (ir, (s', t'))"
  shows "\<exists>c r. fs env file_path = Some c \<and>
           get_ir_by_uri s' ns (''file://'' @ file_path) = Some r \<and>
           ir_content_hash r = generate_content_hash c \<and> ir_id r = ir_id ir \<and>
           ir_namespace ir = ns \<and> ir_source_uri ir = ''file://'' @ file_path \<and>
           resource_segments s' = resource_segments s \<and> entities s' = entities s"
proof -
  obtain c where c: "fs env file_path = Some c"
    using assms by (cases "fs env file_path") (simp_all add: register_ir_def)
  let ?uri = "''file://'' @ file_path"
  let ?P = "\<lambda>r. ir_namespace r = ns \<and> ir_source_uri r = ?uri"
  show ?thesis
  proof (cases "get_ir_by_uri s ns ?uri")
    case None
    then have n: "find ?P (information_resources s) = None" by (simp add: get_ir_by_uri_def)
    from assms c None
    have "s' = s\<lparr>information_resources := information_resources s @ [ir]\<rparr>"
      and "ir_namespace ir = ns" and "ir_source_uri ir = ?uri"
      and "ir_content_hash ir = generate_content_hash c"
      by (auto simp: register_ir_def Let_def upsert_information_resource_def insert_ir_def
            split: sum.splits if_splits)
    then show ?thesis using c n by (simp add: get_ir_by_uri_def find_append_new)
  next
    case (Some existing)
    then have f: "find ?P (information_resources s) = Some existing"
      by (simp add: get_ir_by_uri_def)
    then have p: "ir_namespace existing = ns" "ir_source_uri existing = ?uri"
      using find_SomeD [OF f] by simp_all
    show ?thesis
    proof (cases "ir_content_hash existing = generate_content_hash c")
      case True
      with assms c Some have "ir = existing" "s' = s" by (simp_all add: register_ir_def)
      with c Some True p show ?thesis by simp
    next
      case False
      define x where "x = (if dict_truthy md
            then existing\<lparr>ir_content_hash := generate_content_hash c,
                          ir_metadata := dict_update (ir_metadata existing) (the md)\<rparr>
            else existing\<lparr>ir_content_hash := generate_content_hash c\<rparr>)"
      have px: "ir_namespace x = ns" "ir_source_uri x = ?uri"
        "ir_content_hash x = generate_content_hash c"
        by (simp_all add: x_def p)
      define upd where "upd = (\<lambda>r :: InformationResource. if ir_id r = ir_id existing
            then r\<lparr>ir_content_hash := ir_content_hash x, ir_metadata := ir_metadata x,
                   ir_updated_at := utcnow env t\<rparr>
            else r)"
      have "register_ir env (s, t) file_path ns ty md =
            (case upsert_information_resource s (utcnow env t) x of
               Inl e \<Rightarrow> Inl e
             | Inr (ir, s) \<Rightarrow> Inr (ir, (s, t + 1)))"
        using c Some False by (simp add: register_ir_def Let_def x_def)
      moreover have "upsert_information_resource s (utcnow env t) x =
            Inr (x\<lparr>ir_updated_at := utcnow env t, ir_id := ir_id existing,
                   ir_created_at := ir_created_at existing\<rparr>,
                 s\<lparr>information_resources := map upd (information_resources s)\<rparr>)"
        unfolding upd_def by (rule upsert_ir_existing) (use Some in \<open>simp add: px\<close>)
      ultimately
      have s': "s' = s\<lparr>information_resources := map upd (information_resources s)\<rparr>"
        and ir: "ir_id ir = ir_id existing" "ir_namespace ir = ns" "ir_source_uri ir = ?uri"
        using assms px by auto
      have "find ?P (map upd (information_resources s)) =
            map_option upd (find ?P (information_resources s))"
        by (rule find_map_same) (simp add: upd_def)
      then have "get_ir_by_uri s' ns ?uri = Some (upd existing)"
        using f by (simp add: get_ir_by_uri_def s')
      moreover have "ir_content_hash (upd existing) = generate_content_hash c"
        "ir_id (upd existing) = ir_id existing"
        by (simp_all add: upd_def px)
      ultimately show ?thesis using c ir by (simp add: s')
    qed
  qed
qed

lemma register_ir_unchanged:
  assumes "fs env file_path = Some c"
    and "get_ir_by_uri s ns (''file://'' @ file_path) = Some r"
    and "ir_content_hash r = generate_content_hash c"
  shows "register_ir env (s, t) file_path ns ty md = Inr (r, (s, t))"
  using assms by (simp add: register_ir_def)

subsection \<open>The segmenters do not depend on the clock\<close>

lemma timeless_simps [simp]:
  "timeless (Inl e) = Inl e" "timeless (Inr segs) = Inr (map untimed segs)"
  by (simp_all add: timeless_def)

lemma on_value_simps [simp]:
  "on_value f (Inl e) = Inl e" "on_value f (Inr v) = Inr (f v)"
  by (simp_all add: on_value_def)

lemma text_segment_untimed:
  "untimed (text_segment now ir ns uri i b txt idx) = text_segment 0 ir ns uri i b txt idx"
  by (simp add: text_segment_def ResourceSegment_init_def untimed_def Let_def)

lemma paragraph_segment_untimed:
  "untimed (paragraph_segment now h p ir ns uri i b txt idx) =
   paragraph_segment 0 h p ir ns uri i b txt idx"
  by (simp add: paragraph_segment_def ResourceSegment_init_def untimed_def Let_def)

lemma page_segment_untimed:
  "untimed (page_segment now ir ns uri pn i b txt idx) = page_segment 0 ir ns uri pn i b txt idx"
  by (simp add: page_segment_def ResourceSegment_init_def untimed_def Let_def)

lemma segment_text_batches_untimed:
  "map untimed (segment_text_batches clock ir ns uri bs segs) =
   segment_text_batches (\<lambda>_. 0) ir ns uri bs (map untimed segs)"
  by (induction clock ir ns uri bs segs rule: segment_text_batches.induct)
     (simp_all add: Let_def text_segment_untimed)

lemma segment_text_untimed:
  "timeless (segment_text clock n txt ir ns uri) = segment_text (\<lambda>_. 0) n txt ir ns uri"
  using segment_text_batches_untimed [of clock ir ns uri _ "[]"]
  by (simp add: segment_text_def Let_def split: sum.splits)

lemma segment_paragraph_batches_untimed:
  "map untimed (segment_paragraph_batches clock h p ir ns uri start bs segs) =
   segment_paragraph_batches (\<lambda>_. 0) h p ir ns uri start bs (map untimed segs)"
  by (induction clock h p ir ns uri start bs segs rule: segment_paragraph_batches.induct)
     (simp_all add: Let_def paragraph_segment_untimed)

lemma segment_paragraph_untimed:
  "timeless (segment_paragraph clock n ls h p ir ns uri start) =
   segment_paragraph (\<lambda>_. 0) n ls h p ir ns uri start"
  using segment_paragraph_batches_untimed [of clock h p ir ns uri start _ "[]"]
  by (simp add: segment_paragraph_def Let_def split: sum.splits)

lemma segment_page_batches_untimed:
  "apfst (map untimed) (segment_page_batches clock ir ns uri pn bs st) =
   segment_page_batches (\<lambda>_. 0) ir ns uri pn bs (apfst (map untimed) st)"
  by (induction clock ir ns uri pn bs st rule: segment_page_batches.induct)
     (simp_all add: Let_def page_segment_untimed)

lemma segment_pages_loop_untimed:
  "on_value (apfst (map untimed)) (segment_pages_loop clock n ir ns uri pages st) =
   segment_pages_loop (\<lambda>_. 0) n ir ns uri pages (apfst (map untimed) st)"
  by (induction clock n ir ns uri pages st rule: segment_pages_loop.induct)
     (simp_all add: Let_def segment_page_batches_untimed split: sum.splits)

lemma segment_pages_untimed:
  "timeless (segment_pages clock n pages ir ns uri) = segment_pages (\<lambda>_. 0) n pages ir ns uri"
  using segment_pages_loop_untimed [of clock n ir ns uri pages "([], 0)"]
  by (auto simp: segment_pages_def split: sum.splits)

lemma segment_markdown_loop_untimed:
  "on_value (apfst (map untimed)) (segment_markdown_loop clock n ir ns uri ls st) =
   segment_markdown_loop (\<lambda>_. 0) n ir ns uri ls (apfst (map untimed) st)"
proof (induction clock n ir ns uri ls st rule: segment_markdown_loop.induct)
  case (1 clock n ir ns uri st)
  then show ?case by simp
next
  case (2 clock n ir ns uri line ls segs gi h para pidx)
  have par: "timeless (segment_paragraph (\<lambda>k. clock (length segs + k)) n para h pidx ir ns uri gi) =
             segment_paragraph (\<lambda>_. 0) n para h pidx ir ns uri gi"
    by (rule segment_paragraph_untimed)
  show ?case
  proof (cases "starts_with_hash line \<and> para \<noteq> []")
    case False
    then show ?thesis using 2 by auto
  next
    case True
    show ?thesis
    proof (cases "segment_paragraph (\<lambda>k. clock (length segs + k)) n para h pidx ir ns uri gi")
      case (Inl e)
      with par have z: "segment_paragraph (\<lambda>_. 0) n para h pidx ir ns uri gi = Inl e"
        by simp
      show ?thesis using True by (simp add: Inl z)
    next
      case (Inr new)
      with par have z: "segment_paragraph (\<lambda>_. 0) n para h pidx ir ns uri gi = Inr (map untimed new)"
        by simp
      have "on_value (apfst (map untimed))
              (segment_markdown_loop clock n ir ns uri ls
                 (segs @ new, gi + int (length (segs @ new)), strip (lstrip_hash line), [], pidx + 1)) =
            segment_markdown_loop (\<lambda>_. 0) n ir ns uri ls
              (apfst (map untimed)
                 (segs @ new, gi + int (length (segs @ new)), strip (lstrip_hash line), [], pidx + 1))"
        using True by (intro 2(1) [OF _ _ Inr refl refl]) simp_all
      then show ?thesis using True by (simp add: Inr z Let_def)
    qed
  qed
qed

lemma segment_markdown_untimed:
  "timeless (segment_markdown clock n txt ir ns uri) = segment_markdown (\<lambda>_. 0) n txt ir ns uri"
proof -
  note loop = segment_markdown_loop_untimed
      [of clock n ir ns uri "split_lines txt" "([], 0, ''root'', [], 0)"]
  show ?thesis
  proof (cases "segment_markdown_loop clock n ir ns uri (split_lines txt) ([], 0, ''root'', [], 0)")
    case (Inl e)
    with loop
    have zero: "segment_markdown_loop (\<lambda>_. 0) n ir ns uri (split_lines txt) ([], 0, ''root'', [], 0) =
          Inl e"
      by simp
    show ?thesis by (simp add: segment_markdown_def Inl zero)
  next
    case (Inr st)
    obtain segs gi h para pidx where st: "st = (segs, gi, h, para, pidx)" by (cases st) auto
    have zero: "segment_markdown_loop (\<lambda>_. 0) n ir ns uri (split_lines txt) ([], 0, ''root'', [], 0) =
          Inr (map untimed segs, gi, h, para, pidx)"
      using loop Inr st by simp
    have par: "timeless (segment_paragraph (\<lambda>k. clock (length segs + k)) n para h pidx ir ns uri gi) =
               segment_paragraph (\<lambda>_. 0) n para h pidx ir ns uri gi"
      by (rule segment_paragraph_untimed)
    show ?thesis
    proof (cases "segment_paragraph (\<lambda>k. clock (length segs + k)) n para h pidx ir ns uri gi")
      case (Inl e)
      with par have z: "segment_paragraph (\<lambda>_. 0) n para h pidx ir ns uri gi = Inl e"
        by simp
      show ?thesis by (simp add: segment_markdown_def Inr st zero Inl z)
    next
      case new: (Inr new)
      with par have z: "segment_paragraph (\<lambda>_. 0) n para h pidx ir ns uri gi = Inr (map untimed new)"
        by simp
      show ?thesis by (simp add: segment_markdown_def Inr st zero new z)
    qed
  qed
qed

subsection \<open>One ingestion\<close>

lemma file_segments_untimed:
  "timeless (file_segments env clock file_path ir ir_ns ns uri) =
   file_segments env (\<lambda>_. 0) file_path ir ir_ns ns uri"
  by (simp add: file_segments_def Let_def segment_pages_untimed segment_markdown_untimed
        segment_text_untimed split: sum.splits)

lemma store_and_link_empty:
  "store_and_link env w ir [] ns = Inr ((ir, [], []), w)"
  by (simp add: store_and_link_def)

lemma ingest_pdf_eq:
  assumes "lower (path_suffix file_path) = ''.pdf''"
  shows "ingest_pdf env w file_path ns md =
     (case register_ir env w file_path ns ''pdf'' md of
        Inl e \<Rightarrow> Inl e
      | Inr (ir, (s, t)) \<Rightarrow>
          (case file_segments env (\<lambda>k. utcnow env (t + k)) file_path (ir_id ir)
                  (ir_namespace ir) ns (ir_source_uri ir) of
             Inl e \<Rightarrow> Inl e
           | Inr segs \<Rightarrow> store_and_link env (s, t + length segs) ir segs ns))"
  using assms
  by (simp add: ingest_pdf_def file_segments_def Let_def store_and_link_empty
        split: sum.splits prod.splits)

lemma ingest_markdown_eq:
  assumes "lower (path_suffix file_path) = ''.md''"
  shows "ingest_markdown env w file_path ns md =
     (case register_ir env w file_path ns ''md'' md of
        Inl e \<Rightarrow> Inl e
      | Inr (ir, (s, t)) \<Rightarrow>
          (case file_segments env (\<lambda>k. utcnow env (t + k)) file_path (ir_id ir)
                  (ir_namespace ir) ns (ir_source_uri ir) of
             Inl e \<Rightarrow> Inl e
           | Inr segs \<Rightarrow> store_and_link env (s, t + length segs) ir segs ns))"
  using assms
  by (simp add: ingest_markdown_def file_segments_def Let_def store_and_link_empty
        split: sum.splits prod.splits)

lemma ingest_text_eq:
  assumes "lower (path_suffix file_path) = ''.txt''"
  shows "ingest_text env w file_path ns md =
     (case register_ir env w file_path ns ''txt'' md of
        Inl e \<Rightarrow> Inl e
      | Inr (ir, (s, t)) \<Rightarrow>
          (case file_segments env (\<lambda>k. utcnow env (t + k)) file_path (ir_id ir)
                  (ir_namespace ir) ns (ir_source_uri ir) of
             Inl e \<Rightarrow> Inl e
           | Inr segs \<Rightarrow> store_and_link env (s, t + length segs) ir segs ns))"
  using assms
  by (simp add: ingest_text_def file_segments_def Let_def store_and_link_empty
        split: sum.splits prod.splits)

lemma ingest_file_eq:
  "ingest_file env w file_path namespace md =
     (if fs env file_path = None then Inl FileNotFoundError
      else if lower (path_suffix file_path) \<notin> {''.pdf'', ''.md'', ''.txt''} then Inl ValueError
      else
        (case register_ir env w file_path (or_default env namespace) (source_type file_path) md of
           Inl e \<Rightarrow> Inl e
         | Inr (ir, (s, t)) \<Rightarrow>
             (case file_segments env (\<lambda>k. utcnow env (t + k)) file_path (ir_id ir)
                     (ir_namespace ir) (or_default env namespace) (ir_source_uri ir) of
                Inl e \<Rightarrow> Inl e
              | Inr segs \<Rightarrow>
                  (case store_and_link env (s, t + length segs) ir segs
                          (or_default env namespace) of
                     Inl e \<Rightarrow> Inl e
                   | Inr ((ir', segs', found), w') \<Rightarrow>
                       Inr (length segs',
                            if segs' \<noteq> [] then embed_segments env w' segs' else w')))))"
proof -
  consider (is_pdf) "lower (path_suffix file_path) = ''.pdf''"
    | (is_md) "lower (path_suffix file_path) = ''.md''"
    | (is_txt) "lower (path_suffix file_path) = ''.txt''"
    | (other) "lower (path_suffix file_path) \<notin> {''.pdf'', ''.md'', ''.txt''}"
    by auto
  then show ?thesis
  proof cases
    case is_pdf
    then show ?thesis
      by (simp add: ingest_file_def Let_def ingest_pdf_eq source_type_def
            split: sum.splits prod.splits)
  next
    case is_md
    then show ?thesis
      by (simp add: ingest_file_def Let_def ingest_markdown_eq source_type_def
            split: sum.splits prod.splits)
  next
    case is_txt
    then show ?thesis
      by (simp add: ingest_file_def Let_def ingest_text_eq source_type_def
            split: sum.splits prod.splits)
  next
    case other
    then show ?thesis by (simp add: ingest_file_def Let_def)
  qed
qed

lemma settledI:
  assumes "fs env file_path = Some c"
    and "get_ir_by_uri s ns (''file://'' @ file_path) = Some r"
    and "ir_content_hash r = generate_content_hash c"
    and "file_segments env (\<lambda>_. 0) file_path (ir_id r) ns ns (''file://'' @ file_path) = Inr segs"
    and "length segs = n"
    and "seg_id ` set segs \<subseteq> segment_ids s"
    and "list_all (\<lambda>seg. resolvable env ns s (seg_text seg)) segs"
  shows "settled env file_path ns n s"
  using assms by (auto simp: settled_def list_all_iff)

lemma settledD:
  assumes "settled env file_path ns n s"
  shows "\<exists>c r segs. fs env file_path = Some c \<and>
           get_ir_by_uri s ns (''file://'' @ file_path) = Some r \<and>
           ir_content_hash r = generate_content_hash c \<and>
           file_segments env (\<lambda>_. 0) file_path (ir_id r) ns ns (''file://'' @ file_path) =
             Inr segs \<and>
           length segs = n \<and> seg_id ` set segs \<subseteq> segment_ids s \<and>
           list_all (\<lambda>seg. resolvable env ns s (seg_text seg)) segs"
  using assms by (auto simp: settled_def list_all_iff split: option.splits sum.splits)

lemma timeless_Inr:
  assumes "timeless r = Inr segs0"
  shows "\<exists>segs. r = Inr segs \<and> map untimed segs = segs0"
  using assms by (cases r) simp_all

lemma untimed_ids: "seg_id ` set (map untimed segs) = seg_id ` set segs"
  by (simp add: image_image)

lemma untimed_resolvable:
  "list_all (\<lambda>seg. P (seg_text seg)) (map untimed segs) = list_all (\<lambda>seg. P (seg_text seg)) segs"
  by (simp add: list_all_iff)

lemma first_ingestion_settles:
  assumes "ingest_file env (s0, t0) file_path namespace md = Inr (n, (s1, t1))"
  shows "settled env file_path (or_default env namespace) n s1"
proof -
  let ?ns = "or_default env namespace"
  let ?uri = "''file://'' @ file_path"
  note eq = ingest_file_eq [of env "(s0, t0)" file_path namespace md]
  from assms eq have ok: "fs env file_path \<noteq> None"
    "lower (path_suffix file_path) \<in> {''.pdf'', ''.md'', ''.txt''}"
    by (auto split: if_splits)
  obtain ir s t where reg: "register_ir env (s0, t0) file_path ?ns (source_type file_path) md =
      Inr (ir, (s, t))"
  proof (cases "register_ir env (s0, t0) file_path ?ns (source_type file_path) md")
    case (Inl e)
    with assms eq ok show ?thesis by auto
  next
    case (Inr v)
    with that show ?thesis by (cases v) auto
  qed
  obtain segs where fseg: "file_segments env (\<lambda>k. utcnow env (t + k)) file_path (ir_id ir)
      (ir_namespace ir) ?ns (ir_source_uri ir) = Inr segs"
  proof (cases "file_segments env (\<lambda>k. utcnow env (t + k)) file_path (ir_id ir)
      (ir_namespace ir) ?ns (ir_source_uri ir)")
    case (Inl e)
    with assms eq ok reg show ?thesis by auto
  next
    case (Inr v)
    with that show ?thesis by auto
  qed
  obtain ir' segs' found s' t'
    where sal: "store_and_link env (s, t + length segs) ir segs ?ns =
                  Inr ((ir', segs', found), (s', t'))"
  proof (cases "store_and_link env (s, t + length segs) ir segs ?ns")
    case (Inl e)
    with assms eq ok reg fseg show ?thesis by auto
  next
    case (Inr v)
    with that show ?thesis by (cases v) auto
  qed
  from assms eq ok reg fseg sal
  have res: "n = length segs'"
    "(s1, t1) = (if segs' \<noteq> [] then embed_segments env (s', t') segs' else (s', t'))"
    by auto
  have last: "information_resources s1 = information_resources s' \<and>
              resource_segments s1 = resource_segments s' \<and> entities s1 = entities s'"
  proof (cases "segs' = []")
    case True
    with res show ?thesis by simp
  next
    case False
    with res have "embed_segments env (s', t') segs' = (s1, t1)" by simp
    then show ?thesis by (rule embed_segments_frame)
  qed
  from register_ir_result [OF reg] obtain c r
    where c: "fs env file_path = Some c"
      and r: "get_ir_by_uri s ?ns ?uri = Some r" "ir_content_hash r = generate_content_hash c"
        "ir_id r = ir_id ir"
      and ir: "ir_namespace ir = ?ns" "ir_source_uri ir = ?uri"
    by blast
  note sl = store_and_link_result [OF sal]
  have "get_ir_by_uri s1 ?ns ?uri = Some r"
    using r(1) sl last by (simp add: get_ir_by_uri_def)
  moreover have "file_segments env (\<lambda>_. 0) file_path (ir_id r) ?ns ?ns ?uri =
                 Inr (map untimed segs)"
    using file_segments_untimed [of env "\<lambda>k. utcnow env (t + k)" file_path "ir_id ir" ?ns ?ns ?uri]
      fseg ir r(3)
    by simp
  moreover have "length (map untimed segs) = n" using sl res by simp
  moreover have "segment_ids s1 = segment_ids s'" using last by (simp add: segment_ids_def)
  then have "seg_id ` set (map untimed segs) \<subseteq> segment_ids s1"
    using sl unfolding untimed_ids by simp
  moreover have "resolvable env ?ns s1 = resolvable env ?ns s'"
    using last by (intro ext resolvable_cong) simp
  then have "list_all (\<lambda>seg. resolvable env ?ns s1 (seg_text seg)) (map untimed segs)"
    using sl unfolding untimed_resolvable by simp
  ultimately show ?thesis using c r(2) by (intro settledI)
qed

lemma repeated_ingestion:
  assumes "settled env file_path (or_default env namespace) n s"
  shows "\<exists>s' t'. ingest_file env (s, t) file_path namespace md = Inr (n, (s', t')) \<and>
           settled env file_path (or_default env namespace) n s' \<and>
           information_resources s' = information_resources s \<and>
           map seg_ir_id (resource_segments s') = map seg_ir_id (resource_segments s)"
proof -
  let ?ns = "or_default env namespace"
  let ?uri = "''file://'' @ file_path"
  from settledD [OF assms] obtain c r segs0
    where c: "fs env file_path = Some c"
      and r: "get_ir_by_uri s ?ns ?uri = Some r" "ir_content_hash r = generate_content_hash c"
      and f0: "file_segments env (\<lambda>_. 0) file_path (ir_id r) ?ns ?ns ?uri = Inr segs0"
      and n: "length segs0 = n"
      and ids0: "seg_id ` set segs0 \<subseteq> segment_ids s"
      and res0: "list_all (\<lambda>seg. resolvable env ?ns s (seg_text seg)) segs0"
    by blast
  have supported: "lower (path_suffix file_path) \<in> {''.pdf'', ''.md'', ''.txt''}"
    using f0 by (auto simp: file_segments_def Let_def split: if_splits)
  have rk: "ir_namespace r = ?ns" "ir_source_uri r = ?uri"
    using find_SomeD [OF r(1) [unfolded get_ir_by_uri_def]] by simp_all
  have reg: "register_ir env (s, t) file_path ?ns (source_type file_path) md = Inr (r, (s, t))"
    using c r by (rule register_ir_unchanged)
  obtain segs
    where fseg: "file_segments env (\<lambda>k. utcnow env (t + k)) file_path (ir_id r) ?ns ?ns ?uri =
                   Inr segs"
      and un: "map untimed segs = segs0"
    using timeless_Inr [of "file_segments env (\<lambda>k. utcnow env (t + k)) file_path (ir_id r) ?ns ?ns ?uri" segs0]
      file_segments_untimed [of env "\<lambda>k. utcnow env (t + k)" file_path "ir_id r" ?ns ?ns ?uri] f0
    by auto
  have ids: "seg_id ` set segs \<subseteq> segment_ids s"
    using ids0 unfolding un [symmetric] untimed_ids .
  have res: "list_all (\<lambda>seg. resolvable env ?ns s (seg_text seg)) segs"
    using res0 unfolding un [symmetric] untimed_resolvable .
  from store_and_link_known [OF ids res, of "t + length segs" r]
  obtain segs' found s1 t1
    where sal: "store_and_link env (s, t + length segs) r segs ?ns =
                  Inr ((r, segs', found), (s1, t1))"
      and len: "length segs' = length segs"
      and fr: "information_resources s1 = information_resources s"
        "map seg_id (resource_segments s1) = map seg_id (resource_segments s)"
        "map seg_ir_id (resource_segments s1) = map seg_ir_id (resource_segments s)"
        "entities s1 = entities s"
    by blast
  obtain s' t' where fin: "(if segs' \<noteq> [] then embed_segments env (s1, t1) segs' else (s1, t1)) =
      (s', t')"
    by (cases "if segs' \<noteq> [] then embed_segments env (s1, t1) segs' else (s1, t1)") auto
  have last: "information_resources s' = information_resources s1 \<and>
              resource_segments s' = resource_segments s1 \<and> entities s' = entities s1"
  proof (cases "segs' = []")
    case True
    with fin show ?thesis by simp
  next
    case False
    with fin have "embed_segments env (s1, t1) segs' = (s', t')" by simp
    then show ?thesis by (rule embed_segments_frame)
  qed
  have len_n: "length segs' = n" using len un n by (metis length_map)
  have run: "ingest_file env (s, t) file_path namespace md = Inr (n, (s', t'))"
    unfolding ingest_file_eq using c supported reg fseg sal fin rk len_n by simp
  have "get_ir_by_uri s' ?ns ?uri = Some r"
    using r(1) fr last by (simp add: get_ir_by_uri_def)
  moreover have "segment_ids s' = segment_ids s"
    using fr last by (simp add: segment_ids_def)
  then have "seg_id ` set segs0 \<subseteq> segment_ids s'" using ids0 by simp
  moreover have "resolvable env ?ns s' = resolvable env ?ns s"
    using fr last by (intro ext resolvable_cong) simp
  then have "list_all (\<lambda>seg. resolvable env ?ns s' (seg_text seg)) segs0" using res0 by simp
  ultimately have "settled env file_path ?ns n s'"
    using c r(2) f0 n by (intro settledI)
  with run fr last show ?thesis by simp
qed

text \<open>
  Claim C1.  When \<open>ingest_file\<close> has returned for a file and a namespace, two further
  identical calls return as well, without an error, with the same number of segments,
  and \<open>count_segments\<close> for the namespace is after the second and after the third
  call what it was after the first.
\<close>

theorem ingest_file_idempotent:
  assumes "ingest_file env (s0, t0) file_path namespace md = Inr (n, (s1, t1))"
  shows "\<exists>s2 t2 s3 t3.
           ingest_file env (s1, t1) file_path namespace md = Inr (n, (s2, t2)) \<and>
           ingest_file env (s2, t2) file_path namespace md = Inr (n, (s3, t3)) \<and>
           kos_count_segments env s2 namespace = kos_count_segments env s1 namespace \<and>
           kos_count_segments env s3 namespace = kos_count_segments env s1 namespace"
proof -
  have st1: "settled env file_path (or_default env namespace) n s1"
    using assms by (rule first_ingestion_settles)
  from repeated_ingestion [OF st1, of t1 md] obtain s2 t2
    where run2: "ingest_file env (s1, t1) file_path namespace md = Inr (n, (s2, t2))"
      and st2: "settled env file_path (or_default env namespace) n s2"
      and f2: "information_resources s2 = information_resources s1"
        "map seg_ir_id (resource_segments s2) = map seg_ir_id (resource_segments s1)"
    by blast
  from repeated_ingestion [OF st2, of t2 md] obtain s3 t3
    where run3: "ingest_file env (s2, t2) file_path namespace md = Inr (n, (s3, t3))"
      and f3: "information_resources s3 = information_resources s2"
        "map seg_ir_id (resource_segments s3) = map seg_ir_id (resource_segments s2)"
    by blast
  have "count_segments s2 x = count_segments s1 x" for x
    using f2 by (rule count_segments_cong)
  moreover have "count_segments s3 x = count_segments s1 x" for x
    using f2 f3 by (intro count_segments_cong) simp_all
  ultimately show ?thesis using run2 run3 by (simp add: kos_count_segments_def)
qed

lemma text_segment_fields:
  "seg_id (text_segment now ir ns uri i b txt idx) = generate_segment_id ns uri (str_nat i) txt"
  "seg_text (text_segment now ir ns uri i b txt idx) = txt"
  "seg_ir_id (text_segment now ir ns uri i b txt idx) = ir"
  "seg_created_at (text_segment now ir ns uri i b txt idx) = now"
  by (simp_all add: text_segment_def ResourceSegment_init_def Let_def)

lemma text_segment_at:
  "(text_segment now ir ns uri i b txt idx)\<lparr>seg_created_at := now'\<rparr> =
   text_segment now' ir ns uri i b txt idx"
  by (simp add: text_segment_def ResourceSegment_init_def Let_def)

lemma text_segment_rewritten:
  "(text_segment now ir ns uri i b txt idx)
     \<lparr>seg_text := txt,
      seg_provenance := seg_provenance (text_segment now' ir' ns' uri' i b txt idx'),
      seg_text_hash := seg_text_hash (text_segment now' ir' ns' uri' i b txt idx')\<rparr> =
   text_segment now ir ns uri i b txt idx"
  by (simp add: text_segment_def ResourceSegment_init_def Let_def)

lemmas pipeline_eval =
  pipeline_env_def pipeline_file_def pipeline_text_def pipeline_ir_def pipeline_segment_def
  pipeline_entity_def pipeline_link_def ingested_store_def embedded_store_def
  registered_store_def
  empty_store_def register_ir_def get_ir_by_uri_def read_text_def segment_text_def seg_eval
  store_and_link_def upsert_segment_def get_segment_by_id_def extract_and_link_entities_def
  link_extracted_entity_def get_entity_by_name_def upsert_entity_def insert_entity_def
  EntityLink_init_def confidence_ok_def bulk_add_entity_links_def add_entity_link_def
  same_link_key_def text_segment_fields text_segment_at text_segment_rewritten dict_truthy_def
  upsert_information_resource_def insert_ir_def

lemma first_ingest_example:
  "ingest_text pipeline_env (empty_store, 0) pipeline_file ''lab'' None =
   Inr ((pipeline_ir, [pipeline_segment], [pipeline_entity]), (ingested_store, 10))"
  by (simp add: ingest_text_def pipeline_eval)

lemma reingest_example:
  "ingest_text pipeline_env (ingested_store, 10) pipeline_file ''lab'' None =
   Inr ((pipeline_ir, [pipeline_segment], []),
        (ingested_store\<lparr>segment_entity_links := [pipeline_link 15]\<rparr>, 16))"
  by (simp add: ingest_text_def pipeline_eval)

lemma registered_example:
  "ingest_text pipeline_env (registered_store, 0) pipeline_file ''lab'' None =
   Inr ((pipeline_ir, [pipeline_segment\<lparr>seg_created_at := 0\<rparr>],
         [pipeline_entity\<lparr>ent_id := ''uuid-1'', ent_created_at := 2, ent_updated_at := 3\<rparr>]),
        (\<lparr>information_resources = [pipeline_ir],
          resource_segments = [pipeline_segment\<lparr>seg_created_at := 0\<rparr>],
          entities = [pipeline_entity\<lparr>ent_id := ''uuid-1'', ent_created_at := 2,
                                       ent_updated_at := 3\<rparr>],
          segment_entity_links = [(pipeline_link 5)\<lparr>link_entity_id := ''uuid-1''\<rparr>],
          embeddings = []\<rparr>, 6))"
  by (simp add: ingest_text_def pipeline_eval)

lemma file_example:
  "ingest_file pipeline_env (empty_store, 0) pipeline_file None None =
   Inr (1, (embedded_store, 11))"
  by (simp add: ingest_file_def ingest_text_def pipeline_eval or_default_def truthy_def
        path_suffix_def path_name_def lower_def lower_char_def embed_segments_def
        get_embedding_def add_embedding_def)

theorem ingest_file_idempotent_witness:
  "ingest_file pipeline_env (empty_store, 0) pipeline_file None None =
     Inr (1, (embedded_store, 11)) \<and>
   kos_count_segments pipeline_env embedded_store None = 1 \<and>
   (\<exists>s2 t2 s3 t3.
      ingest_file pipeline_env (embedded_store, 11) pipeline_file None None = Inr (1, (s2, t2)) \<and>
      ingest_file pipeline_env (s2, t2) pipeline_file None None = Inr (1, (s3, t3)) \<and>
      kos_count_segments pipeline_env s2 None = 1 \<and>
      kos_count_segments pipeline_env s3 None = 1)"
proof -
  have c: "kos_count_segments pipeline_env embedded_store None = 1"
    by (simp add: kos_count_segments_def count_segments_def or_default_def truthy_def
          pipeline_eval)
  show ?thesis
    using ingest_file_idempotent [OF file_example] file_example c by simp
qed

text \<open>
  Claim C4, as amended.  When the file is registered under its namespace and source URI
  with the hash of its present content, \<open>_register_ir\<close> returns the stored resource,
  reads no clock and leaves the store as it is; ingestion then goes on as for a new
  file.  For a text file that is not blank and that the segmenter accepts,
  \<open>ingest_text\<close> is the storing and linking of the segments built anew; when it
  returns, it returns the stored resource, the resource table is unchanged, the
  segments it returns are the ones built anew up to their creation time, and every one
  of their identifiers is in the segment table.
\<close>

theorem equal_hash_reingestion:
  assumes "fs env file_path = Some c"
    and "get_ir_by_uri s ns (''file://'' @ file_path) = Some r"
    and "ir_content_hash r = generate_content_hash c"
    and "read_text env file_path = Inr txt"
    and "strip txt \<noteq> []"
    and "segment_text (\<lambda>k. utcnow env (t + k)) (sentences_per_segment env) txt (ir_id r) ns
           (ir_source_uri r) = Inr built"
  shows "register_ir env (s, t) file_path ns ty md = Inr (r, (s, t)) \<and>
         ingest_text env (s, t) file_path ns md =
           store_and_link env (s, t + length built) r built ns \<and>
         (\<forall>ir' segs found s' t'.
            ingest_text env (s, t) file_path ns md = Inr ((ir', segs, found), (s', t')) \<longrightarrow>
              ir' = r \<and> information_resources s' = information_resources s \<and>
              map untimed segs = map untimed built \<and>
              set (map seg_id built) \<subseteq> set (map seg_id (resource_segments s')))"
proof -
  have reg: "register_ir env (s, t) file_path ns ty md = Inr (r, (s, t))" for ty
    using assms(1-3) by (rule register_ir_unchanged)
  have run: "ingest_text env (s, t) file_path ns md =
               store_and_link env (s, t + length built) r built ns"
    using assms(4-6) by (simp add: ingest_text_def reg)
  have "ir' = r \<and> information_resources s' = information_resources s \<and>
        map untimed segs = map untimed built \<and>
        set (map seg_id built) \<subseteq> set (map seg_id (resource_segments s'))"
    if "ingest_text env (s, t) file_path ns md = Inr ((ir', segs, found), (s', t'))"
    for ir' segs found s' t'
    using store_and_link_result [OF that [unfolded run]] by (simp add: segment_ids_def)
  with reg run show ?thesis by blast
qed

theorem equal_hash_reingestion_witness:
  "fs pipeline_env pipeline_file = Some pipeline_bytes \<and>
   get_ir_by_uri ingested_store ''lab'' (''file://'' @ pipeline_file) = Some pipeline_ir \<and>
   ir_content_hash pipeline_ir = generate_content_hash pipeline_bytes \<and>
   read_text pipeline_env pipeline_file = Inr pipeline_text \<and>
   strip pipeline_text \<noteq> [] \<and>
   segment_text (\<lambda>k. utcnow pipeline_env (10 + k)) (sentences_per_segment pipeline_env)
     pipeline_text (ir_id pipeline_ir) ''lab'' (ir_source_uri pipeline_ir) =
     Inr [pipeline_segment\<lparr>seg_created_at := 10\<rparr>] \<and>
   register_ir pipeline_env (ingested_store, 10) pipeline_file ''lab'' ''txt'' None =
     Inr (pipeline_ir, (ingested_store, 10)) \<and>
   ingest_text pipeline_env (ingested_store, 10) pipeline_file ''lab'' None =
     Inr ((pipeline_ir, [pipeline_segment], []),
          (ingested_store\<lparr>segment_entity_links := [pipeline_link 15]\<rparr>, 16)) \<and>
   map untimed [pipeline_segment] = map untimed [pipeline_segment\<lparr>seg_created_at := 10\<rparr>] \<and>
   set (map seg_id [pipeline_segment\<lparr>seg_created_at := 10\<rparr>]) \<subseteq>
     set (map seg_id (resource_segments
                        (ingested_store\<lparr>segment_entity_links := [pipeline_link 15]\<rparr>)))"
proof -
  have h: "fs pipeline_env pipeline_file = Some pipeline_bytes"
    "get_ir_by_uri ingested_store ''lab'' (''file://'' @ pipeline_file) = Some pipeline_ir"
    "ir_content_hash pipeline_ir = generate_content_hash pipeline_bytes"
    "read_text pipeline_env pipeline_file = Inr pipeline_text"
    "strip pipeline_text \<noteq> []"
    "segment_text (\<lambda>k. utcnow pipeline_env (10 + k)) (sentences_per_segment pipeline_env)
       pipeline_text (ir_id pipeline_ir) ''lab'' (ir_source_uri pipeline_ir) =
       Inr [pipeline_segment\<lparr>seg_created_at := 10\<rparr>]"
    by (simp_all add: pipeline_eval)
  from equal_hash_reingestion [OF h, of "''txt''" None] reingest_example h
  show ?thesis by simp
qed

theorem equal_hash_reingestion_counterexample:
  "fs pipeline_env pipeline_file = Some pipeline_bytes \<and>
   ir_content_hash pipeline_ir = generate_content_hash pipeline_bytes \<and>
   get_ir_by_uri ingested_store ''lab'' (''file://'' @ pipeline_file) = Some pipeline_ir \<and>
   ingest_text pipeline_env (ingested_store, 10) pipeline_file ''lab'' None =
     Inr ((pipeline_ir, [pipeline_segment], []),
          (ingested_store\<lparr>segment_entity_links := [pipeline_link 15]\<rparr>, 16)) \<and>
   ingest_text pipeline_env (ingested_store, 10) pipeline_file ''lab'' None \<noteq>
     Inr ((pipeline_ir, [], []), (ingested_store, 10)) \<and>
   get_ir_by_uri registered_store ''lab'' (''file://'' @ pipeline_file) = Some pipeline_ir \<and>
   resource_segments registered_store = [] \<and>
   (\<exists>found s' t'.
      ingest_text pipeline_env (registered_store, 0) pipeline_file ''lab'' None =
        Inr ((pipeline_ir, [pipeline_segment\<lparr>seg_created_at := 0\<rparr>], found), (s', t')) \<and>
      resource_segments s' = [pipeline_segment\<lparr>seg_created_at := 0\<rparr>])"
proof -
  have "fs pipeline_env pipeline_file = Some pipeline_bytes"
    "ir_content_hash pipeline_ir = generate_content_hash pipeline_bytes"
    "get_ir_by_uri ingested_store ''lab'' (''file://'' @ pipeline_file) = Some pipeline_ir"
    "get_ir_by_uri registered_store ''lab'' (''file://'' @ pipeline_file) = Some pipeline_ir"
    "resource_segments registered_store = []"
    by (simp_all add: pipeline_eval)
  then show ?thesis using reingest_example registered_example by simp
qed

end
